theory Spec2Isabelle
  imports Complex_Main
begin

section \<open>Dense matrices and the Eigen primitives the routines use\<close>

text \<open>
  A dense matrix is kept column by column, together with its number of rows (a matrix
  with no column still has rows). Every routine of \<^verbatim>\<open>Orthogonalization.h\<close> mutates
  its argument \<^verbatim>\<open>in_output\<close> in place; here it takes the matrix and returns the new one.
  Arithmetic is exact: the scalars are the real numbers (and the complex numbers in a
  section of their own), not floating point numbers.
\<close>

record 'a matrix =
  nrows :: nat
  columns :: "'a list list"

definition wf_matrix :: "'a matrix \<Rightarrow> bool" where
  "wf_matrix A = list_all (\<lambda>c. length c = nrows A) (columns A)"

definition ncols :: "'a matrix \<Rightarrow> nat" where
  "ncols A = length (columns A)"

text \<open>\<^verbatim>\<open>Eigen::Index\<close> is a signed machine integer; \<^verbatim>\<open>cols()\<close> and \<^verbatim>\<open>rows()\<close> return it.
  No routine computes an index outside \<open>[-1, cols]\<close>, so the integers model it.\<close>

definition cols :: "'a matrix \<Rightarrow> int" where
  "cols A = int (length (columns A))"

definition rows :: "'a matrix \<Rightarrow> int" where
  "rows A = int (nrows A)"

definition col :: "'a matrix \<Rightarrow> nat \<Rightarrow> 'a list" where
  "col A j = columns A ! j"

definition set_col :: "'a matrix \<Rightarrow> nat \<Rightarrow> 'a list \<Rightarrow> 'a matrix" where
  "set_col A j v = A\<lparr>columns := (columns A)[j := v]\<rparr>"

definition leftCols :: "'a matrix \<Rightarrow> nat \<Rightarrow> 'a matrix" where
  "leftCols A k = \<lparr>nrows = nrows A, columns = take k (columns A)\<rparr>"

definition rightCols :: "'a matrix \<Rightarrow> nat \<Rightarrow> 'a matrix" where
  "rightCols A k = \<lparr>nrows = nrows A, columns = drop (ncols A - k) (columns A)\<rparr>"

text \<open>Assignment to the block \<^verbatim>\<open>rightCols(k)\<close> of a matrix.\<close>

definition set_rightCols :: "'a matrix \<Rightarrow> nat \<Rightarrow> 'a matrix \<Rightarrow> 'a matrix" where
  "set_rightCols A k B = A\<lparr>columns := take (ncols A - k) (columns A) @ columns B\<rparr>"

definition transposeM :: "'a matrix \<Rightarrow> 'a matrix" where
  "transposeM M =
     \<lparr>nrows = ncols M, columns = map (\<lambda>r. map (\<lambda>c. c ! r) (columns M)) [0..<nrows M]\<rparr>"

definition vsub :: "'a::minus list \<Rightarrow> 'a list \<Rightarrow> 'a list" where
  "vsub u v = map2 (-) u v"

definition smult :: "'a::times \<Rightarrow> 'a list \<Rightarrow> 'a list" where
  "smult c v = map ((*) c) v"

text \<open>Matrix times vector: entry \<open>r\<close> of the product is \<open>\<Sum>k. M(r, k) * v(k)\<close>.\<close>

definition mat_vec :: "'a::comm_ring_1 matrix \<Rightarrow> 'a list \<Rightarrow> 'a list" where
  "mat_vec M v = map (\<lambda>r. \<Sum>k<ncols M. columns M ! k ! r * v ! k) [0..<nrows M]"

definition mat_mul :: "'a::comm_ring_1 matrix \<Rightarrow> 'a matrix \<Rightarrow> 'a matrix" where
  "mat_mul M N = \<lparr>nrows = nrows M, columns = map (mat_vec M) (columns N)\<rparr>"

definition mat_sub :: "'a::minus matrix \<Rightarrow> 'a matrix \<Rightarrow> 'a matrix" where
  "mat_sub M N = \<lparr>nrows = nrows M, columns = map2 vsub (columns M) (columns N)\<rparr>"

definition Identity :: "nat \<Rightarrow> nat \<Rightarrow> 'a::zero_neq_one matrix" where
  "Identity r c =
     \<lparr>nrows = r, columns = map (\<lambda>k. map (\<lambda>i. if i = k then 1 else 0) [0..<r]) [0..<c]\<rparr>"

text \<open>The inner product, the Euclidean norm and the normalisation of a real vector.
  \<^verbatim>\<open>normalize()\<close> divides the vector by its norm; a zero norm is a division by zero,
  which is an error of its own here. The errors: the two assertions of
  \<^verbatim>\<open>assert_leftColsToSkip\<close>, the division by a zero norm, and the assignment of a value
  of another shape to a view of a block.\<close>

datatype error = SkipTooLarge | SkipNegative | ZeroNorm | ViewShapeMismatch

definition dot :: "real list \<Rightarrow> real list \<Rightarrow> real" where
  "dot u v = (\<Sum>i<length u. u ! i * v ! i)"

definition squaredNorm :: "real list \<Rightarrow> real" where
  "squaredNorm v = (\<Sum>i<length v. (v ! i)\<^sup>2)"

definition vec_norm :: "real list \<Rightarrow> real" where
  "vec_norm v = sqrt (squaredNorm v)"

definition normalize_vec :: "real list \<Rightarrow> error + real list" where
  "normalize_vec v = (if vec_norm v = 0 then Inl ZeroNorm else Inr (map (\<lambda>x. x / vec_norm v) v))"

fun colwise_normalize :: "real list list \<Rightarrow> error + real list list" where
  "colwise_normalize [] = Inr []"
| "colwise_normalize (c # cs) =
     (case normalize_vec c of
        Inl e \<Rightarrow> Inl e
      | Inr v \<Rightarrow> (case colwise_normalize cs of Inl e \<Rightarrow> Inl e | Inr vs \<Rightarrow> Inr (v # vs)))"

section \<open>The routines of Orthogonalization.h\<close>

text \<open>The two assertions, in the order of the source; they are compiled in (no
  \<^verbatim>\<open>NDEBUG\<close>), and a failed assertion ends the call.\<close>

definition assert_leftColsToSkip :: "'a matrix \<Rightarrow> int \<Rightarrow> error + unit" where
  "assert_leftColsToSkip in_output leftColsToSkip =
     (if \<not> cols in_output > leftColsToSkip then Inl SkipTooLarge
      else if \<not> leftColsToSkip \<ge> 0 then Inl SkipNegative
      else Inr ())"

definition treatFirstCol :: "real matrix \<Rightarrow> int \<Rightarrow> error + real matrix \<times> int" where
  "treatFirstCol in_output leftColsToSkip =
     (if leftColsToSkip = 0 then
        (case normalize_vec (col in_output 0) of
           Inl e \<Rightarrow> Inl e
         | Inr v \<Rightarrow> Inr (set_col in_output 0 v, 1))
      else Inr (in_output, leftColsToSkip))"

text \<open>\<^verbatim>\<open>QR_orthogonalisation\<close> multiplies the factor \<open>Q\<close> of Eigen's Householder QR
  decomposition by a rectangular identity. The decomposition is Eigen's, not the
  repository's: the function \<open>householderQ\<close> that gives the square factor \<open>Q\<close> of a
  matrix is a parameter. The value returned is the one the source assigns to
  \<^verbatim>\<open>in_output\<close>.\<close>

definition QR_orthogonalisation :: "(real matrix \<Rightarrow> real matrix) \<Rightarrow> real matrix \<Rightarrow> real matrix" where
  "QR_orthogonalisation householderQ in_output =
     (let nrows' = nrows in_output;
          ncols' = min nrows' (ncols in_output);
          I = Identity nrows' ncols'
      in mat_mul (householderQ in_output) I)"

function MGS_inner :: "real matrix \<Rightarrow> nat \<Rightarrow> nat \<Rightarrow> real matrix" where
  "MGS_inner in_output k j =
     (if j < k then
        MGS_inner
          (set_col in_output k
             (vsub (col in_output k)
                (smult (dot (col in_output j) (col in_output k)) (col in_output j))))
          k (j + 1)
      else in_output)"
  by pat_completeness auto
termination
  by (relation "measure (\<lambda>(A, k, j). k - j)") auto

declare MGS_inner.simps [simp del]

lemma ncols_set_col: "ncols (set_col A j v) = ncols A"
  by (simp add: ncols_def set_col_def)

lemma ncols_MGS_inner: "ncols (MGS_inner A k j) = ncols A"
proof (induction A k j rule: MGS_inner.induct)
  case (1 A k j)
  show ?case
  proof (cases "j < k")
    case True
    then show ?thesis
      using "1.IH" by (subst MGS_inner.simps) (simp add: ncols_set_col)
  next
    case False
    then show ?thesis by (subst MGS_inner.simps) simp
  qed
qed

function MGS_loop :: "real matrix \<Rightarrow> nat \<Rightarrow> error + real matrix" where
  "MGS_loop in_output k =
     (if k < ncols in_output then
        (let A1 = MGS_inner in_output k 0 in
         case normalize_vec (col A1 k) of
           Inl e \<Rightarrow> Inl e
         | Inr v \<Rightarrow> MGS_loop (set_col A1 k v) (k + 1))
      else Inr in_output)"
  by pat_completeness auto
termination
  by (relation "measure (\<lambda>(A, k). ncols A - k)")
     (auto simp: ncols_set_col ncols_MGS_inner)

declare MGS_loop.simps [simp del]

definition MGS_orthogonalisation :: "real matrix \<Rightarrow> int \<Rightarrow> error + real matrix" where
  "MGS_orthogonalisation in_output leftColsToSkip =
     (case assert_leftColsToSkip in_output leftColsToSkip of
        Inl e \<Rightarrow> Inl e
      | Inr _ \<Rightarrow>
          (case treatFirstCol in_output leftColsToSkip of
             Inl e \<Rightarrow> Inl e
           | Inr (A, L) \<Rightarrow> MGS_loop A (nat L)))"

definition GS_step :: "real matrix \<Rightarrow> nat \<Rightarrow> real list" where
  "GS_step in_output j =
     vsub (col in_output j)
       (mat_vec (leftCols in_output j)
          (mat_vec (transposeM (leftCols in_output j)) (col in_output j)))"

function GS_loop :: "real matrix \<Rightarrow> nat \<Rightarrow> error + real matrix" where
  "GS_loop in_output j =
     (if j < ncols in_output then
        (let A1 = set_col in_output j (GS_step in_output j) in
         case normalize_vec (col A1 j) of
           Inl e \<Rightarrow> Inl e
         | Inr v \<Rightarrow> GS_loop (set_col A1 j v) (j + 1))
      else Inr in_output)"
  by pat_completeness auto
termination
  by (relation "measure (\<lambda>(A, j). ncols A - j)") (auto simp: ncols_set_col)

declare GS_loop.simps [simp del]

definition GS_orthogonalisation :: "real matrix \<Rightarrow> int \<Rightarrow> error + real matrix" where
  "GS_orthogonalisation in_output leftColsToSkip =
     (case assert_leftColsToSkip in_output leftColsToSkip of
        Inl e \<Rightarrow> Inl e
      | Inr _ \<Rightarrow>
          (case treatFirstCol in_output leftColsToSkip of
             Inl e \<Rightarrow> Inl e
           | Inr (A, L) \<Rightarrow> GS_loop A (nat L)))"

definition twice_is_enough_orthogonalisation :: "real matrix \<Rightarrow> int \<Rightarrow> error + real matrix" where
  "twice_is_enough_orthogonalisation in_output leftColsToSkip =
     (case GS_orthogonalisation in_output leftColsToSkip of
        Inl e \<Rightarrow> Inl e
      | Inr A \<Rightarrow> GS_orthogonalisation A leftColsToSkip)"

definition partial_orthogonalisation :: "real matrix \<Rightarrow> int \<Rightarrow> error + real matrix" where
  "partial_orthogonalisation in_output leftColsToSkip =
     (case assert_leftColsToSkip in_output leftColsToSkip of
        Inl e \<Rightarrow> Inl e
      | Inr _ \<Rightarrow>
          if leftColsToSkip = 0 then Inr in_output
          else
            (let rightColToOrtho = nat (cols in_output - leftColsToSkip);
                 left = leftCols in_output (nat leftColsToSkip);
                 right = rightCols in_output rightColToOrtho;
                 A1 = set_rightCols in_output rightColToOrtho
                        (mat_sub right (mat_mul left (mat_mul (transposeM left) right)))
             in case colwise_normalize (columns (rightCols A1 rightColToOrtho)) of
                  Inl e \<Rightarrow> Inl e
                | Inr cs \<Rightarrow>
                    Inr (set_rightCols A1 rightColToOrtho \<lparr>nrows = nrows A1, columns = cs\<rparr>)))"

text \<open>\<^verbatim>\<open>right_cols\<close> is an \<^verbatim>\<open>Eigen::Ref\<close>, a view of the right block that cannot be
  resized: the assignment inside \<^verbatim>\<open>QR_orthogonalisation\<close> needs a value of the
  view's own shape.\<close>

definition JensWehner_orthogonalisation ::
  "(real matrix \<Rightarrow> real matrix) \<Rightarrow> real matrix \<Rightarrow> int \<Rightarrow> error + real matrix" where
  "JensWehner_orthogonalisation householderQ in_output leftColsToSkip =
     (case assert_leftColsToSkip in_output leftColsToSkip of
        Inl e \<Rightarrow> Inl e
      | Inr _ \<Rightarrow>
          (let rightColToOrtho = nat (cols in_output - leftColsToSkip) in
           case partial_orthogonalisation in_output leftColsToSkip of
             Inl e \<Rightarrow> Inl e
           | Inr A1 \<Rightarrow>
               (let right_cols = rightCols A1 rightColToOrtho;
                    Q = QR_orthogonalisation householderQ right_cols
                in if nrows Q = nrows right_cols \<and> ncols Q = ncols right_cols
                   then Inr (set_rightCols A1 rightColToOrtho Q)
                   else Inl ViewShapeMismatch)))"

section \<open>The routines when a zero norm ends nothing\<close>

text \<open>
  No routine has an exit at a norm of zero: \<^verbatim>\<open>normalize()\<close> and
  \<^verbatim>\<open>colwise().normalize()\<close> raise nothing, and the loops go on to the next column.
  Exact arithmetic gives the quotient by zero no value, so what normalisation leaves in a
  vector of norm zero is a parameter \<open>at_zero\<close> (for Eigen's \<^verbatim>\<open>normalize()\<close>, which tests
  the norm, the vector itself). The definitions below are the routines once more with this
  normalisation; where \<open>normalize_vec\<close> meets no zero norm they compute what the
  definitions above compute. Their only errors are the assertions.
\<close>

definition normalize_total :: "(real list \<Rightarrow> real list) \<Rightarrow> real list \<Rightarrow> real list" where
  "normalize_total at_zero v =
     (if vec_norm v = 0 then at_zero v else map (\<lambda>x. x / vec_norm v) v)"

definition treatFirstCol_total ::
  "(real list \<Rightarrow> real list) \<Rightarrow> real matrix \<Rightarrow> int \<Rightarrow> real matrix \<times> int" where
  "treatFirstCol_total at_zero in_output leftColsToSkip =
     (if leftColsToSkip = 0 then
        (set_col in_output 0 (normalize_total at_zero (col in_output 0)), 1)
      else (in_output, leftColsToSkip))"

function MGS_loop_total :: "(real list \<Rightarrow> real list) \<Rightarrow> real matrix \<Rightarrow> nat \<Rightarrow> real matrix" where
  "MGS_loop_total at_zero in_output k =
     (if k < ncols in_output then
        (let A1 = MGS_inner in_output k 0 in
         MGS_loop_total at_zero (set_col A1 k (normalize_total at_zero (col A1 k))) (k + 1))
      else in_output)"
  by pat_completeness auto
termination
  by (relation "measure (\<lambda>(z, A, k). ncols A - k)")
     (auto simp: ncols_set_col ncols_MGS_inner)

declare MGS_loop_total.simps [simp del]

definition MGS_orthogonalisation_total ::
  "(real list \<Rightarrow> real list) \<Rightarrow> real matrix \<Rightarrow> int \<Rightarrow> error + real matrix" where
  "MGS_orthogonalisation_total at_zero in_output leftColsToSkip =
     (case assert_leftColsToSkip in_output leftColsToSkip of
        Inl e \<Rightarrow> Inl e
      | Inr _ \<Rightarrow>
          (case treatFirstCol_total at_zero in_output leftColsToSkip of
             (A, L) \<Rightarrow> Inr (MGS_loop_total at_zero A (nat L))))"

function GS_loop_total :: "(real list \<Rightarrow> real list) \<Rightarrow> real matrix \<Rightarrow> nat \<Rightarrow> real matrix" where
  "GS_loop_total at_zero in_output j =
     (if j < ncols in_output then
        (let A1 = set_col in_output j (GS_step in_output j) in
         GS_loop_total at_zero (set_col A1 j (normalize_total at_zero (col A1 j))) (j + 1))
      else in_output)"
  by pat_completeness auto
termination
  by (relation "measure (\<lambda>(z, A, j). ncols A - j)") (auto simp: ncols_set_col)

declare GS_loop_total.simps [simp del]

definition GS_orthogonalisation_total ::
  "(real list \<Rightarrow> real list) \<Rightarrow> real matrix \<Rightarrow> int \<Rightarrow> error + real matrix" where
  "GS_orthogonalisation_total at_zero in_output leftColsToSkip =
     (case assert_leftColsToSkip in_output leftColsToSkip of
        Inl e \<Rightarrow> Inl e
      | Inr _ \<Rightarrow>
          (case treatFirstCol_total at_zero in_output leftColsToSkip of
             (A, L) \<Rightarrow> Inr (GS_loop_total at_zero A (nat L))))"

definition twice_is_enough_orthogonalisation_total ::
  "(real list \<Rightarrow> real list) \<Rightarrow> real matrix \<Rightarrow> int \<Rightarrow> error + real matrix" where
  "twice_is_enough_orthogonalisation_total at_zero in_output leftColsToSkip =
     (case GS_orthogonalisation_total at_zero in_output leftColsToSkip of
        Inl e \<Rightarrow> Inl e
      | Inr A \<Rightarrow> GS_orthogonalisation_total at_zero A leftColsToSkip)"

definition partial_orthogonalisation_total ::
  "(real list \<Rightarrow> real list) \<Rightarrow> real matrix \<Rightarrow> int \<Rightarrow> error + real matrix" where
  "partial_orthogonalisation_total at_zero in_output leftColsToSkip =
     (case assert_leftColsToSkip in_output leftColsToSkip of
        Inl e \<Rightarrow> Inl e
      | Inr _ \<Rightarrow>
          if leftColsToSkip = 0 then Inr in_output
          else
            (let rightColToOrtho = nat (cols in_output - leftColsToSkip);
                 left = leftCols in_output (nat leftColsToSkip);
                 right = rightCols in_output rightColToOrtho;
                 A1 = set_rightCols in_output rightColToOrtho
                        (mat_sub right (mat_mul left (mat_mul (transposeM left) right)))
             in Inr (set_rightCols A1 rightColToOrtho
                       \<lparr>nrows = nrows A1,
                          columns = map (normalize_total at_zero)
                                      (columns (rightCols A1 rightColToOrtho))\<rparr>)))"

definition JensWehner_orthogonalisation_total ::
  "(real list \<Rightarrow> real list) \<Rightarrow> (real matrix \<Rightarrow> real matrix) \<Rightarrow> real matrix \<Rightarrow> int \<Rightarrow>
   error + real matrix" where
  "JensWehner_orthogonalisation_total at_zero householderQ in_output leftColsToSkip =
     (case assert_leftColsToSkip in_output leftColsToSkip of
        Inl e \<Rightarrow> Inl e
      | Inr _ \<Rightarrow>
          (let rightColToOrtho = nat (cols in_output - leftColsToSkip) in
           case partial_orthogonalisation_total at_zero in_output leftColsToSkip of
             Inl e \<Rightarrow> Inl e
           | Inr A1 \<Rightarrow>
               (let right_cols = rightCols A1 rightColToOrtho;
                    Q = QR_orthogonalisation householderQ right_cols
                in if nrows Q = nrows right_cols \<and> ncols Q = ncols right_cols
                   then Inr (set_rightCols A1 rightColToOrtho Q)
                   else Inl ViewShapeMismatch)))"

section \<open>The routines on complex matrices\<close>

text \<open>
  The routines are templates over the matrix type. For a complex scalar, Eigen's
  \<^verbatim>\<open>dot\<close> conjugates its first argument, \<^verbatim>\<open>norm\<close> is the Hermitian norm and
  \<^verbatim>\<open>transpose()\<close> does not conjugate (\<^verbatim>\<open>adjoint()\<close> would). The definitions below are
  \<open>treatFirstCol\<close>, \<open>GS_orthogonalisation\<close> and \<open>MGS_orthogonalisation\<close> once more, at
  that scalar type.
\<close>

definition dot_complex :: "complex list \<Rightarrow> complex list \<Rightarrow> complex" where
  "dot_complex u v = (\<Sum>i<length u. cnj (u ! i) * v ! i)"

definition squaredNorm_complex :: "complex list \<Rightarrow> real" where
  "squaredNorm_complex v = (\<Sum>i<length v. (cmod (v ! i))\<^sup>2)"

definition vec_norm_complex :: "complex list \<Rightarrow> real" where
  "vec_norm_complex v = sqrt (squaredNorm_complex v)"

definition normalize_vec_complex :: "complex list \<Rightarrow> error + complex list" where
  "normalize_vec_complex v =
     (if vec_norm_complex v = 0 then Inl ZeroNorm
      else Inr (map (\<lambda>x. x / of_real (vec_norm_complex v)) v))"

definition treatFirstCol_complex :: "complex matrix \<Rightarrow> int \<Rightarrow> error + complex matrix \<times> int" where
  "treatFirstCol_complex in_output leftColsToSkip =
     (if leftColsToSkip = 0 then
        (case normalize_vec_complex (col in_output 0) of
           Inl e \<Rightarrow> Inl e
         | Inr v \<Rightarrow> Inr (set_col in_output 0 v, 1))
      else Inr (in_output, leftColsToSkip))"

definition GS_step_complex :: "complex matrix \<Rightarrow> nat \<Rightarrow> complex list" where
  "GS_step_complex in_output j =
     vsub (col in_output j)
       (mat_vec (leftCols in_output j)
          (mat_vec (transposeM (leftCols in_output j)) (col in_output j)))"

function GS_loop_complex :: "complex matrix \<Rightarrow> nat \<Rightarrow> error + complex matrix" where
  "GS_loop_complex in_output j =
     (if j < ncols in_output then
        (let A1 = set_col in_output j (GS_step_complex in_output j) in
         case normalize_vec_complex (col A1 j) of
           Inl e \<Rightarrow> Inl e
         | Inr v \<Rightarrow> GS_loop_complex (set_col A1 j v) (j + 1))
      else Inr in_output)"
  by pat_completeness auto
termination
  by (relation "measure (\<lambda>(A, j). ncols A - j)") (auto simp: ncols_set_col)

declare GS_loop_complex.simps [simp del]

definition GS_orthogonalisation_complex :: "complex matrix \<Rightarrow> int \<Rightarrow> error + complex matrix" where
  "GS_orthogonalisation_complex in_output leftColsToSkip =
     (case assert_leftColsToSkip in_output leftColsToSkip of
        Inl e \<Rightarrow> Inl e
      | Inr _ \<Rightarrow>
          (case treatFirstCol_complex in_output leftColsToSkip of
             Inl e \<Rightarrow> Inl e
           | Inr (A, L) \<Rightarrow> GS_loop_complex A (nat L)))"

function MGS_inner_complex :: "complex matrix \<Rightarrow> nat \<Rightarrow> nat \<Rightarrow> complex matrix" where
  "MGS_inner_complex in_output k j =
     (if j < k then
        MGS_inner_complex
          (set_col in_output k
             (vsub (col in_output k)
                (smult (dot_complex (col in_output j) (col in_output k)) (col in_output j))))
          k (j + 1)
      else in_output)"
  by pat_completeness auto
termination
  by (relation "measure (\<lambda>(A, k, j). k - j)") auto

declare MGS_inner_complex.simps [simp del]

lemma ncols_MGS_inner_complex: "ncols (MGS_inner_complex A k j) = ncols A"
proof (induction A k j rule: MGS_inner_complex.induct)
  case (1 A k j)
  show ?case
  proof (cases "j < k")
    case True
    then show ?thesis
      using "1.IH" by (subst MGS_inner_complex.simps) (simp add: ncols_set_col)
  next
    case False
    then show ?thesis by (subst MGS_inner_complex.simps) simp
  qed
qed

function MGS_loop_complex :: "complex matrix \<Rightarrow> nat \<Rightarrow> error + complex matrix" where
  "MGS_loop_complex in_output k =
     (if k < ncols in_output then
        (let A1 = MGS_inner_complex in_output k 0 in
         case normalize_vec_complex (col A1 k) of
           Inl e \<Rightarrow> Inl e
         | Inr v \<Rightarrow> MGS_loop_complex (set_col A1 k v) (k + 1))
      else Inr in_output)"
  by pat_completeness auto
termination
  by (relation "measure (\<lambda>(A, k). ncols A - k)")
     (auto simp: ncols_set_col ncols_MGS_inner_complex)

declare MGS_loop_complex.simps [simp del]

definition MGS_orthogonalisation_complex :: "complex matrix \<Rightarrow> int \<Rightarrow> error + complex matrix" where
  "MGS_orthogonalisation_complex in_output leftColsToSkip =
     (case assert_leftColsToSkip in_output leftColsToSkip of
        Inl e \<Rightarrow> Inl e
      | Inr _ \<Rightarrow>
          (case treatFirstCol_complex in_output leftColsToSkip of
             Inl e \<Rightarrow> Inl e
           | Inr (A, L) \<Rightarrow> MGS_loop_complex A (nat L)))"

section \<open>TypeTraits.h\<close>

text \<open>
  \<^verbatim>\<open>TypeTraits<Scalar>\<close> is a template with full specialisations for \<^verbatim>\<open>float\<close>,
  \<^verbatim>\<open>double\<close> and \<^verbatim>\<open>long double\<close>; any other scalar type gets the generic
  definition. The limits of a scalar type are those of \<^verbatim>\<open>std::numeric_limits\<close> (in the
  specialisations) and of \<^verbatim>\<open>Eigen::numext::numeric_limits\<close> (in the generic definition):
  both belong to libraries and are parameters here, each a function from the scalar type
  to its limits. The product in the generic \<^verbatim>\<open>min()\<close> is the multiplication of the
  scalar type itself.
\<close>

datatype scalar_type = Float | Double | Long_double | Other string

record 'a numeric_limits =
  limits_epsilon :: 'a
  limits_min :: 'a

definition TypeTraits_generic_epsilon :: "'a numeric_limits \<Rightarrow> 'a" where
  "TypeTraits_generic_epsilon eigen_limits = limits_epsilon eigen_limits"

definition TypeTraits_generic_min :: "'a::times numeric_limits \<Rightarrow> 'a" where
  "TypeTraits_generic_min eigen_limits =
     TypeTraits_generic_epsilon eigen_limits * TypeTraits_generic_epsilon eigen_limits *
     TypeTraits_generic_epsilon eigen_limits"

definition TypeTraits_float_epsilon :: "'a numeric_limits \<Rightarrow> 'a" where
  "TypeTraits_float_epsilon std_limits = limits_epsilon std_limits"

definition TypeTraits_float_min :: "'a numeric_limits \<Rightarrow> 'a" where
  "TypeTraits_float_min std_limits = limits_min std_limits"

definition TypeTraits_double_epsilon :: "'a numeric_limits \<Rightarrow> 'a" where
  "TypeTraits_double_epsilon std_limits = limits_epsilon std_limits"

definition TypeTraits_double_min :: "'a numeric_limits \<Rightarrow> 'a" where
  "TypeTraits_double_min std_limits = limits_min std_limits"

definition TypeTraits_long_double_epsilon :: "'a numeric_limits \<Rightarrow> 'a" where
  "TypeTraits_long_double_epsilon std_limits = limits_epsilon std_limits"

definition TypeTraits_long_double_min :: "'a numeric_limits \<Rightarrow> 'a" where
  "TypeTraits_long_double_min std_limits = limits_min std_limits"

text \<open>The choice of the specialisation, as the compiler makes it from the type.\<close>

definition TypeTraits_epsilon ::
  "(scalar_type \<Rightarrow> 'a numeric_limits) \<Rightarrow> (scalar_type \<Rightarrow> 'a numeric_limits) \<Rightarrow> scalar_type \<Rightarrow> 'a"
  where
  "TypeTraits_epsilon std_limits eigen_limits Scalar =
     (case Scalar of
        Float \<Rightarrow> TypeTraits_float_epsilon (std_limits Float)
      | Double \<Rightarrow> TypeTraits_double_epsilon (std_limits Double)
      | Long_double \<Rightarrow> TypeTraits_long_double_epsilon (std_limits Long_double)
      | Other name \<Rightarrow> TypeTraits_generic_epsilon (eigen_limits (Other name)))"

definition TypeTraits_min ::
  "(scalar_type \<Rightarrow> 'a::times numeric_limits) \<Rightarrow> (scalar_type \<Rightarrow> 'a numeric_limits) \<Rightarrow>
   scalar_type \<Rightarrow> 'a"
  where
  "TypeTraits_min std_limits eigen_limits Scalar =
     (case Scalar of
        Float \<Rightarrow> TypeTraits_float_min (std_limits Float)
      | Double \<Rightarrow> TypeTraits_double_min (std_limits Double)
      | Long_double \<Rightarrow> TypeTraits_long_double_min (std_limits Long_double)
      | Other name \<Rightarrow> TypeTraits_generic_min (eigen_limits (Other name)))"

section \<open>Predicates of the specification\<close>

definition precondition_failure :: "error + 'a \<Rightarrow> bool" where
  "precondition_failure r = (r = Inl SkipTooLarge \<or> r = Inl SkipNegative)"

text \<open>The matrix \<open>B\<close> has the shape of \<open>A\<close> and the same first \<open>k\<close> columns.\<close>

definition frame_kept :: "real matrix \<Rightarrow> nat \<Rightarrow> real matrix \<Rightarrow> bool" where
  "frame_kept A k B = (leftCols B k = leftCols A k \<and> ncols B = ncols A \<and> nrows B = nrows A)"

text \<open>Linear independence of the columns: a linear combination of the columns that is the
  zero vector has all its coefficients zero. The coefficient of column \<open>k\<close> is \<open>f k\<close>.\<close>

definition lin_indep :: "real matrix \<Rightarrow> bool" where
  "lin_indep A =
     (\<forall>f. (\<forall>r<nrows A. (\<Sum>k<ncols A. f k * col A k ! r) = 0) \<longrightarrow> (\<forall>k<ncols A. f k = 0))"

text \<open>The first \<open>j\<close> columns are orthonormal: distinct columns have inner product 0, and
  the inner product of a column with itself, the square of its norm, is 1.\<close>

definition orthonormal_upto :: "real matrix \<Rightarrow> nat \<Rightarrow> bool" where
  "orthonormal_upto A j =
     (\<forall>i<j. \<forall>k<j. dot (col A i) (col A k) = (if i = k then 1 else 0))"

text \<open>What the Gram-Schmidt routines make of \<open>A\<close>: a matrix of the same shape, with all
  its columns orthonormal.\<close>

definition orthonormalised :: "real matrix \<Rightarrow> real matrix \<Rightarrow> bool" where
  "orthonormalised A B =
     (wf_matrix B \<and> lin_indep B \<and> nrows B = nrows A \<and> ncols B = ncols A \<and>
      orthonormal_upto B (ncols B))"

text \<open>The invariant of the inner loop of \<open>MGS_orthogonalisation\<close>: the first \<open>k\<close>
  columns are orthonormal and column \<open>k\<close> is orthogonal to the first \<open>j\<close> of them.\<close>

definition MGS_inner_inv :: "real matrix \<Rightarrow> nat \<Rightarrow> nat \<Rightarrow> bool" where
  "MGS_inner_inv A k j =
     (wf_matrix A \<and> lin_indep A \<and> orthonormal_upto A k \<and>
      (\<forall>i<j. dot (col A i) (col A k) = 0))"

text \<open>What is left of a vector \<open>v\<close> once its projection on the first \<open>L\<close> columns is
  subtracted, as \<open>GS_orthogonalisation\<close> and \<open>partial_orthogonalisation\<close> compute it; and
  membership of \<open>v\<close> in the span of the first \<open>L\<close> columns.\<close>

definition residual :: "real matrix \<Rightarrow> nat \<Rightarrow> real list \<Rightarrow> real list" where
  "residual A L v =
     vsub v (mat_vec (leftCols A L) (mat_vec (transposeM (leftCols A L)) v))"

definition in_span_left :: "real matrix \<Rightarrow> nat \<Rightarrow> real list \<Rightarrow> bool" where
  "in_span_left A L v = (\<exists>f. \<forall>r<nrows A. v ! r = (\<Sum>k<L. f k * col A k ! r))"

text \<open>What is asked of the factor \<open>Q\<close> that Eigen's Householder decomposition gives for a
  matrix \<open>M\<close>: \<open>Q\<close> is square of the size of the rows of \<open>M\<close>, its columns are
  orthonormal, and \<open>M = Q R\<close> for an upper triangular \<open>R\<close>.\<close>

definition QR_factor :: "real matrix \<Rightarrow> real matrix \<Rightarrow> bool" where
  "QR_factor Q M =
     (wf_matrix Q \<and> nrows Q = nrows M \<and> ncols Q = nrows M \<and> orthonormal_upto Q (ncols Q) \<and>
      (\<exists>R. \<forall>j<ncols M. \<forall>r<nrows M.
          col M j ! r = (\<Sum>i<nrows M. (if i \<le> j then R i j else 0) * col Q i ! r)))"

section \<open>The precondition on leftColsToSkip\<close>

lemma normalize_error: "normalize_vec v = Inl e \<Longrightarrow> e = ZeroNorm"
  by (auto simp: normalize_vec_def split: if_splits)

lemma colwise_normalize_error: "colwise_normalize cs = Inl e \<Longrightarrow> e = ZeroNorm"
  by (induction cs) (auto split: sum.splits dest: normalize_error)

lemma treatFirstCol_error: "treatFirstCol A L = Inl e \<Longrightarrow> e = ZeroNorm"
  by (auto simp: treatFirstCol_def split: if_splits sum.splits dest: normalize_error)

lemma treatFirstCol_ncols: "treatFirstCol A L = Inr (B, L') \<Longrightarrow> ncols B = ncols A"
  by (auto simp: treatFirstCol_def ncols_set_col split: if_splits sum.splits)

lemma GS_loop_error: "GS_loop A j = Inl e \<Longrightarrow> e = ZeroNorm"
proof (induction A j rule: GS_loop.induct)
  case (1 A j)
  show ?case
  proof (cases "j < ncols A")
    case True
    then show ?thesis
      using "1.IH" "1.prems"
      by (subst (asm) GS_loop.simps) (auto simp: Let_def split: sum.splits dest: normalize_error)
  next
    case False
    then show ?thesis
      using "1.prems" by (subst (asm) GS_loop.simps) simp
  qed
qed

lemma GS_loop_ncols: "GS_loop A j = Inr B \<Longrightarrow> ncols B = ncols A"
proof (induction A j rule: GS_loop.induct)
  case (1 A j)
  show ?case
  proof (cases "j < ncols A")
    case True
    then show ?thesis
      using "1.IH" "1.prems"
      by (subst (asm) GS_loop.simps) (auto simp: Let_def ncols_set_col split: sum.splits)
  next
    case False
    then show ?thesis
      using "1.prems" by (subst (asm) GS_loop.simps) simp
  qed
qed

lemma MGS_loop_error: "MGS_loop A k = Inl e \<Longrightarrow> e = ZeroNorm"
proof (induction A k rule: MGS_loop.induct)
  case (1 A k)
  show ?case
  proof (cases "k < ncols A")
    case True
    then show ?thesis
      using "1.IH" "1.prems"
      by (subst (asm) MGS_loop.simps) (auto simp: Let_def split: sum.splits dest: normalize_error)
  next
    case False
    then show ?thesis
      using "1.prems" by (subst (asm) MGS_loop.simps) simp
  qed
qed

lemma assert_leftColsToSkip_ok:
  "0 \<le> L \<Longrightarrow> L < cols A \<Longrightarrow> assert_leftColsToSkip A L = Inr ()"
  by (simp add: assert_leftColsToSkip_def)

lemma assert_leftColsToSkip_fails:
  "L = cols A \<or> L = - 1 \<Longrightarrow> precondition_failure (assert_leftColsToSkip A L)"
  by (auto simp: assert_leftColsToSkip_def precondition_failure_def)

lemma cols_ncols: "cols A = int (ncols A)"
  by (simp add: cols_def ncols_def)

lemma GS_orthogonalisation_error:
  assumes "0 \<le> L" "L < cols A" "GS_orthogonalisation A L = Inl e"
  shows "e = ZeroNorm"
  using assms
  by (auto simp: GS_orthogonalisation_def assert_leftColsToSkip_ok
      split: sum.splits prod.splits dest: treatFirstCol_error GS_loop_error)

lemma GS_orthogonalisation_ncols:
  assumes "GS_orthogonalisation A L = Inr B"
  shows "ncols B = ncols A"
  using assms
  by (auto simp: GS_orthogonalisation_def split: sum.splits prod.splits
      dest!: treatFirstCol_ncols GS_loop_ncols)

lemma MGS_orthogonalisation_error:
  assumes "0 \<le> L" "L < cols A" "MGS_orthogonalisation A L = Inl e"
  shows "e = ZeroNorm"
  using assms
  by (auto simp: MGS_orthogonalisation_def assert_leftColsToSkip_ok
      split: sum.splits prod.splits dest: treatFirstCol_error MGS_loop_error)

lemma twice_is_enough_orthogonalisation_error:
  assumes "0 \<le> L" "L < cols A" "twice_is_enough_orthogonalisation A L = Inl e"
  shows "e = ZeroNorm"
proof (cases "GS_orthogonalisation A L")
  case (Inl e')
  with assms show ?thesis
    by (auto simp: twice_is_enough_orthogonalisation_def dest: GS_orthogonalisation_error)
next
  case (Inr B)
  then have "cols B = cols A"
    by (simp add: cols_ncols GS_orthogonalisation_ncols)
  with assms Inr show ?thesis
    by (auto simp: twice_is_enough_orthogonalisation_def
        dest: GS_orthogonalisation_error [of L B])
qed

lemma partial_orthogonalisation_error:
  assumes "0 \<le> L" "L < cols A" "partial_orthogonalisation A L = Inl e"
  shows "e = ZeroNorm"
  using assms
  by (auto simp: partial_orthogonalisation_def assert_leftColsToSkip_ok Let_def
      split: sum.splits if_splits dest: colwise_normalize_error)

lemma JensWehner_orthogonalisation_error:
  assumes "0 \<le> L" "L < cols A" "JensWehner_orthogonalisation hq A L = Inl e"
  shows "e = ZeroNorm \<or> e = ViewShapeMismatch"
  using assms
  by (auto simp: JensWehner_orthogonalisation_def assert_leftColsToSkip_ok Let_def
      split: sum.splits if_splits dest: partial_orthogonalisation_error)

lemma ncols_QR_orthogonalisation:
  "ncols (QR_orthogonalisation hq A) = min (nrows A) (ncols A)"
  by (simp add: QR_orthogonalisation_def Let_def mat_mul_def Identity_def ncols_def)

lemma precondition_failure_routines:
  assumes "precondition_failure (assert_leftColsToSkip A L)"
  shows "precondition_failure (GS_orthogonalisation A L)"
    and "precondition_failure (MGS_orthogonalisation A L)"
    and "precondition_failure (twice_is_enough_orthogonalisation A L)"
    and "precondition_failure (partial_orthogonalisation A L)"
    and "precondition_failure (JensWehner_orthogonalisation hq A L)"
  using assms
  by (auto simp: precondition_failure_def GS_orthogonalisation_def MGS_orthogonalisation_def
      twice_is_enough_orthogonalisation_def partial_orthogonalisation_def
      JensWehner_orthogonalisation_def)

text \<open>
  Claim C6. Each of the five routines with a parameter \<open>leftColsToSkip\<close> fails the
  precondition check when \<open>leftColsToSkip\<close> is the number of columns or \<open>-1\<close>; when
  \<open>0 \<le> leftColsToSkip < cols\<close> no routine fails it (whatever else happens later).
  \<open>QR_orthogonalisation\<close> has no such parameter and no error among its results: for
  every matrix it yields a matrix of \<open>min rows cols\<close> columns.
\<close>

theorem leftColsToSkip_precondition:
  "(L = cols A \<or> L = - 1 \<longrightarrow>
      precondition_failure (GS_orthogonalisation A L) \<and>
      precondition_failure (MGS_orthogonalisation A L) \<and>
      precondition_failure (twice_is_enough_orthogonalisation A L) \<and>
      precondition_failure (partial_orthogonalisation A L) \<and>
      precondition_failure (JensWehner_orthogonalisation hq A L)) \<and>
   (0 \<le> L \<and> L < cols A \<longrightarrow>
      \<not> precondition_failure (GS_orthogonalisation A L) \<and>
      \<not> precondition_failure (MGS_orthogonalisation A L) \<and>
      \<not> precondition_failure (twice_is_enough_orthogonalisation A L) \<and>
      \<not> precondition_failure (partial_orthogonalisation A L) \<and>
      \<not> precondition_failure (JensWehner_orthogonalisation hq A L)) \<and>
   ncols (QR_orthogonalisation hq B) = min (nrows B) (ncols B)"
proof (intro conjI impI)
  assume "L = cols A \<or> L = - 1"
  then have f: "precondition_failure (assert_leftColsToSkip A L)"
    by (rule assert_leftColsToSkip_fails)
  show "precondition_failure (GS_orthogonalisation A L)"
    "precondition_failure (MGS_orthogonalisation A L)"
    "precondition_failure (twice_is_enough_orthogonalisation A L)"
    "precondition_failure (partial_orthogonalisation A L)"
    "precondition_failure (JensWehner_orthogonalisation hq A L)"
    using precondition_failure_routines [OF f] by blast+
next
  assume r: "0 \<le> L \<and> L < cols A"
  show "\<not> precondition_failure (GS_orthogonalisation A L)"
    using r GS_orthogonalisation_error [of L A]
    by (auto simp: precondition_failure_def)
  show "\<not> precondition_failure (MGS_orthogonalisation A L)"
    using r MGS_orthogonalisation_error [of L A]
    by (auto simp: precondition_failure_def)
  show "\<not> precondition_failure (twice_is_enough_orthogonalisation A L)"
    using r twice_is_enough_orthogonalisation_error [of L A]
    by (auto simp: precondition_failure_def)
  show "\<not> precondition_failure (partial_orthogonalisation A L)"
    using r partial_orthogonalisation_error [of L A]
    by (auto simp: precondition_failure_def)
  show "\<not> precondition_failure (JensWehner_orthogonalisation hq A L)"
    using r JensWehner_orthogonalisation_error [of L A hq]
    by (auto simp: precondition_failure_def)
next
  show "ncols (QR_orthogonalisation hq B) = min (nrows B) (ncols B)"
    by (rule ncols_QR_orthogonalisation)
qed

text \<open>Concrete evaluation: the definitions of the primitives, with numerals unfolded.\<close>

lemmas eval_primitives =
  assert_leftColsToSkip_def cols_def treatFirstCol_def col_def normalize_vec_def
  vec_norm_def squaredNorm_def set_col_def GS_step_def ncols_def leftCols_def rightCols_def
  set_rightCols_def transposeM_def mat_vec_def mat_mul_def mat_sub_def vsub_def smult_def
  dot_def Identity_def eval_nat_numeral Let_def

theorem leftColsToSkip_precondition_witness:
  "precondition_failure (GS_orthogonalisation \<lparr>nrows = 2, columns = [[1, 0], [3, 4]]\<rparr> 2) \<and>
   precondition_failure (JensWehner_orthogonalisation (\<lambda>M. M) \<lparr>nrows = 2, columns = [[1, 0], [3, 4]]\<rparr> (- 1)) \<and>
   \<not> precondition_failure (twice_is_enough_orthogonalisation \<lparr>nrows = 2, columns = [[1, 0], [3, 4]]\<rparr> 1) \<and>
   \<not> precondition_failure (partial_orthogonalisation \<lparr>nrows = 2, columns = [[1, 0], [3, 4]]\<rparr> 0)"
  using
    leftColsToSkip_precondition [of 2 "\<lparr>nrows = 2, columns = [[1, 0], [3, 4]]\<rparr>" "\<lambda>M. M"]
    leftColsToSkip_precondition [of "- 1" "\<lparr>nrows = 2, columns = [[1, 0], [3, 4]]\<rparr>" "\<lambda>M. M"]
    leftColsToSkip_precondition [of 1 "\<lparr>nrows = 2, columns = [[1, 0], [3, 4]]\<rparr>" "\<lambda>M. M"]
    leftColsToSkip_precondition [of 0 "\<lparr>nrows = 2, columns = [[1, 0], [3, 4]]\<rparr>" "\<lambda>M. M"]
  by (simp add: cols_def)

section \<open>Entries of the primitives, inner products, linear independence\<close>

lemma leftCols_set_col: "k \<le> j \<Longrightarrow> leftCols (set_col A j v) k = leftCols A k"
  by (simp add: leftCols_def set_col_def)

lemma nrows_set_col: "nrows (set_col A j v) = nrows A"
  by (simp add: set_col_def)

lemma wf_col_length: "wf_matrix A \<Longrightarrow> k < ncols A \<Longrightarrow> length (col A k) = nrows A"
  by (simp add: wf_matrix_def col_def ncols_def list_all_length)

lemma wf_matrixI:
  "(\<And>k. k < ncols A \<Longrightarrow> length (col A k) = nrows A) \<Longrightarrow> wf_matrix A"
  by (simp add: wf_matrix_def col_def ncols_def list_all_length)

lemma col_set_col:
  "j < ncols A \<Longrightarrow> col (set_col A j v) k = (if k = j then v else col A k)"
  by (simp add: col_def set_col_def ncols_def)

lemma wf_set_col:
  "wf_matrix A \<Longrightarrow> length v = nrows A \<Longrightarrow> wf_matrix (set_col A j v)"
  using set_update_subset_insert [of "columns A" j v]
  by (auto simp: wf_matrix_def set_col_def list_all_iff)

lemma dot_commute: "length u = length v \<Longrightarrow> dot u v = dot v u"
  by (simp add: dot_def mult.commute)

lemma length_vsub: "length (vsub u v) = min (length u) (length v)"
  by (simp add: vsub_def)

lemma nth_vsub: "i < length u \<Longrightarrow> i < length v \<Longrightarrow> vsub u v ! i = u ! i - v ! i"
  by (simp add: vsub_def)

lemma length_smult: "length (smult c v) = length v"
  by (simp add: smult_def)

lemma nth_smult: "i < length v \<Longrightarrow> smult c v ! i = c * v ! i"
  by (simp add: smult_def)

lemma length_mat_vec: "length (mat_vec M v) = nrows M"
  by (simp add: mat_vec_def)

lemma nth_mat_vec:
  "r < nrows M \<Longrightarrow> mat_vec M v ! r = (\<Sum>k<ncols M. col M k ! r * v ! k)"
  by (simp add: mat_vec_def col_def)

lemma nrows_transposeM: "nrows (transposeM M) = ncols M"
  by (simp add: transposeM_def)

lemma ncols_transposeM: "ncols (transposeM M) = nrows M"
  by (simp add: transposeM_def ncols_def)

lemma nth_mat_vec_transposeM:
  assumes "wf_matrix M" and "k < ncols M"
  shows "mat_vec (transposeM M) u ! k = dot (col M k) u"
proof -
  have "mat_vec (transposeM M) u ! k = (\<Sum>r<nrows M. col (transposeM M) r ! k * u ! r)"
    using assms(2) by (simp add: nth_mat_vec nrows_transposeM ncols_transposeM)
  also have "\<dots> = (\<Sum>r<nrows M. col M k ! r * u ! r)"
    using assms(2) by (intro sum.cong) (simp_all add: col_def transposeM_def ncols_def)
  also have "\<dots> = dot (col M k) u"
    using wf_col_length [OF assms] by (simp add: dot_def)
  finally show ?thesis .
qed

lemma leftCols_simps:
  "nrows (leftCols A j) = nrows A"
  "j \<le> ncols A \<Longrightarrow> ncols (leftCols A j) = j"
  "k < j \<Longrightarrow> col (leftCols A j) k = col A k"
  by (simp_all add: leftCols_def ncols_def col_def)

lemma wf_leftCols: "wf_matrix A \<Longrightarrow> wf_matrix (leftCols A j)"
  by (auto simp: wf_matrix_def leftCols_def list_all_iff dest: in_set_takeD)

lemma length_GS_step:
  "wf_matrix A \<Longrightarrow> j < ncols A \<Longrightarrow> length (GS_step A j) = nrows A"
  by (simp add: GS_step_def length_vsub length_mat_vec leftCols_simps wf_col_length)

lemma nth_GS_step:
  assumes "wf_matrix A" and "j < ncols A" and "r < nrows A"
  shows "GS_step A j ! r = col A j ! r - (\<Sum>k<j. col A k ! r * dot (col A k) (col A j))"
proof -
  let ?L = "leftCols A j"
  have j: "j \<le> ncols A" using assms(2) by simp
  have "mat_vec ?L (mat_vec (transposeM ?L) (col A j)) ! r =
        (\<Sum>k<j. col ?L k ! r * mat_vec (transposeM ?L) (col A j) ! k)"
    using assms(3) by (simp add: nth_mat_vec leftCols_simps j)
  also have "\<dots> = (\<Sum>k<j. col A k ! r * dot (col A k) (col A j))"
    using wf_leftCols [OF assms(1), of j]
    by (intro sum.cong) (simp_all add: nth_mat_vec_transposeM leftCols_simps j)
  finally show ?thesis
    using assms
    by (simp add: GS_step_def nth_vsub length_mat_vec leftCols_simps wf_col_length)
qed

subsection \<open>Inner products\<close>

lemma dot_entries: "length u = n \<Longrightarrow> dot u v = (\<Sum>r<n. u ! r * v ! r)"
  by (auto simp: dot_def)

lemma squaredNorm_dot: "squaredNorm v = dot v v"
  by (simp add: squaredNorm_def dot_def power2_eq_square)

lemma squaredNorm_nonneg: "0 \<le> squaredNorm v"
  by (simp add: squaredNorm_def sum_nonneg)

lemma vec_norm_zero_iff: "vec_norm v = 0 \<longleftrightarrow> (\<forall>r<length v. v ! r = 0)"
  by (auto simp: vec_norm_def squaredNorm_def sum_nonneg_eq_0_iff)

lemma vec_norm_pos: "vec_norm v \<noteq> 0 \<Longrightarrow> 0 < vec_norm v"
  using squaredNorm_nonneg [of v] by (simp add: vec_norm_def less_le)

lemma vec_norm_square: "vec_norm v * vec_norm v = dot v v"
  using squaredNorm_nonneg [of v] by (simp add: vec_norm_def squaredNorm_dot [symmetric])

lemma normalize_vec_Inr:
  assumes "normalize_vec v = Inr q"
  shows "length q = length v" and "vec_norm v \<noteq> 0"
    and "\<And>r. r < length v \<Longrightarrow> q ! r = v ! r / vec_norm v"
  using assms by (auto simp: normalize_vec_def split: if_splits)

lemma normalize_vec_total: "vec_norm v \<noteq> 0 \<Longrightarrow> \<exists>q. normalize_vec v = Inr q"
  by (simp add: normalize_vec_def)

lemma dot_normalize_right:
  assumes "normalize_vec v = Inr q" and "length u = length v"
  shows "dot u q = dot u v / vec_norm v"
proof -
  have "dot u q = (\<Sum>r<length v. u ! r * (v ! r / vec_norm v))"
    using normalize_vec_Inr [OF assms(1)] assms(2) by (simp add: dot_def)
  also have "\<dots> = (\<Sum>r<length v. u ! r * v ! r) / vec_norm v"
    by (simp add: sum_divide_distrib)
  finally show ?thesis using assms(2) by (simp add: dot_def)
qed

lemma dot_normalize_self:
  assumes "normalize_vec v = Inr q"
  shows "dot q q = 1"
proof -
  have l: "length q = length v" and nz: "vec_norm v \<noteq> 0"
    using normalize_vec_Inr [OF assms] by simp_all
  have "dot q q = dot q v / vec_norm v"
    using dot_normalize_right [OF assms l] .
  also have "dot q v = dot v q" using l by (rule dot_commute)
  also have "dot v q = dot v v / vec_norm v"
    using dot_normalize_right [OF assms refl] .
  finally have "dot q q = dot v v / (vec_norm v * vec_norm v)"
    by simp
  then show ?thesis
    using nz by (simp add: vec_norm_square [symmetric])
qed

subsection \<open>Operations on a column that keep the columns linearly independent\<close>

lemma lin_indepD:
  "lin_indep A \<Longrightarrow> (\<And>r. r < nrows A \<Longrightarrow> (\<Sum>k<ncols A. f k * col A k ! r) = 0) \<Longrightarrow>
   k < ncols A \<Longrightarrow> f k = 0"
  by (simp add: lin_indep_def)

lemma lin_indep_column_operation:
  assumes A: "lin_indep A" and j: "j < ncols A" and s: "s \<noteq> 0" and cj: "c j = 0"
    and shape: "nrows B = nrows A" "ncols B = ncols A"
    and others: "\<And>k r. k < ncols A \<Longrightarrow> k \<noteq> j \<Longrightarrow> r < nrows A \<Longrightarrow> col B k ! r = col A k ! r"
    and changed: "\<And>r. r < nrows A \<Longrightarrow>
        col B j ! r = (col A j ! r - (\<Sum>k<ncols A. c k * col A k ! r)) / s"
  shows "lin_indep B"
  unfolding lin_indep_def
proof (intro allI impI)
  fix g k
  assume z: "\<forall>r<nrows B. (\<Sum>k<ncols B. g k * col B k ! r) = 0" and k: "k < ncols B"
  define f where "f k = (if k = j then g j / s else g k - g j * c k / s)" for k
  let ?M = "{..<ncols A} - {j}"
  have fin: "finite {..<ncols A}" "j \<in> {..<ncols A}" using j by simp_all
  have "(\<Sum>k<ncols A. f k * col A k ! r) = 0" if r: "r < nrows A" for r
  proof -
    have b: "(\<Sum>k<ncols A. g k * col B k ! r) = g j * col B j ! r + (\<Sum>k\<in>?M. g k * col B k ! r)"
      using fin by (rule sum.remove)
    have b': "(\<Sum>k\<in>?M. g k * col B k ! r) = (\<Sum>k\<in>?M. g k * col A k ! r)"
      by (intro sum.cong) (simp_all add: others r)
    have c: "(\<Sum>k<ncols A. c k * col A k ! r) = (\<Sum>k\<in>?M. c k * col A k ! r)"
      using sum.remove [OF fin, of "\<lambda>k. c k * col A k ! r"] cj by simp
    have bj: "g j * col B j ! r =
        g j / s * col A j ! r - g j / s * (\<Sum>k\<in>?M. c k * col A k ! r)"
      using s by (simp add: changed [OF r] c field_simps)
    have a: "(\<Sum>k<ncols A. f k * col A k ! r) = f j * col A j ! r + (\<Sum>k\<in>?M. f k * col A k ! r)"
      using fin by (rule sum.remove)
    have a': "(\<Sum>k\<in>?M. f k * col A k ! r) =
        (\<Sum>k\<in>?M. g k * col A k ! r - g j / s * (c k * col A k ! r))"
      by (intro sum.cong) (simp_all add: f_def algebra_simps)
    have a'': "\<dots> = (\<Sum>k\<in>?M. g k * col A k ! r) - g j / s * (\<Sum>k\<in>?M. c k * col A k ! r)"
      by (simp add: sum_subtractf sum_distrib_left)
    have "(\<Sum>k<ncols A. f k * col A k ! r) = (\<Sum>k<ncols A. g k * col B k ! r)"
      unfolding a a' a'' b b' bj by (simp add: f_def)
    then show ?thesis using z r shape by simp
  qed
  then have f0: "\<And>k. k < ncols A \<Longrightarrow> f k = 0"
    by (rule lin_indepD [OF A])
  then have "f j = 0" using j by blast
  then have gj: "g j = 0" using s by (simp add: f_def)
  show "g k = 0"
  proof (cases "k = j")
    case True
    then show ?thesis using gj by simp
  next
    case False
    from k shape have "f k = 0" by (simp add: f0)
    with False gj show ?thesis by (simp add: f_def)
  qed
qed

lemma lin_indep_col_nonzero:
  assumes "lin_indep A" and "j < ncols A"
  shows "\<exists>r<nrows A. col A j ! r \<noteq> 0"
proof (rule ccontr)
  assume "\<not> ?thesis"
  then have z: "\<And>r. r < nrows A \<Longrightarrow> col A j ! r = 0" by blast
  have "(\<Sum>k<ncols A. (if k = j then 1 else 0) * col A k ! r) = 0" if "r < nrows A" for r
  proof -
    have "(\<Sum>k<ncols A. (if k = j then 1 else 0) * col A k ! r) =
          (\<Sum>k<ncols A. if k = j then col A j ! r else 0)"
      by (intro sum.cong) simp_all
    then show ?thesis using assms(2) that by (simp add: z)
  qed
  then have "(if j = j then 1 else 0:: real) = 0"
    by (rule lin_indepD [OF assms(1) _ assms(2)])
  then show False by simp
qed

section \<open>The Gram-Schmidt loops on linearly independent columns\<close>

lemma orthonormal_uptoD:
  "orthonormal_upto A j \<Longrightarrow> i < j \<Longrightarrow> k < j \<Longrightarrow> dot (col A i) (col A k) = (if i = k then 1 else 0)"
  by (simp add: orthonormal_upto_def)

lemma dot_GS_step:
  assumes "wf_matrix A" and "j < ncols A" and "length u = nrows A"
  shows "dot u (GS_step A j) =
         dot u (col A j) - (\<Sum>k<j. dot (col A k) (col A j) * dot u (col A k))"
proof -
  let ?d = "\<lambda>k. dot (col A k) (col A j)"
  have "dot u (GS_step A j) =
        (\<Sum>r<nrows A. u ! r * (col A j ! r - (\<Sum>k<j. col A k ! r * ?d k)))"
    by (simp add: dot_entries [OF assms(3)] nth_GS_step assms)
  also have "\<dots> = (\<Sum>r<nrows A. u ! r * col A j ! r) - (\<Sum>r<nrows A. \<Sum>k<j. ?d k * (u ! r * col A k ! r))"
    by (simp add: right_diff_distrib sum_subtractf sum_distrib_left mult_ac)
  also have "(\<Sum>r<nrows A. \<Sum>k<j. ?d k * (u ! r * col A k ! r)) =
             (\<Sum>k<j. \<Sum>r<nrows A. ?d k * (u ! r * col A k ! r))"
    by (rule sum.swap)
  also have "\<dots> = (\<Sum>k<j. ?d k * dot u (col A k))"
    by (simp add: dot_entries [OF assms(3)] sum_distrib_left)
  finally show ?thesis
    by (simp add: dot_entries [OF assms(3)])
qed

lemma GS_step_orthogonal:
  assumes "wf_matrix A" and "j < ncols A" and "orthonormal_upto A j" and "i < j"
  shows "dot (col A i) (GS_step A j) = 0"
proof -
  have i: "i < ncols A" using assms by simp
  have "(\<Sum>k<j. dot (col A k) (col A j) * dot (col A i) (col A k)) =
        (\<Sum>k<j. if k = i then dot (col A i) (col A j) else 0)"
    using assms(3,4) by (intro sum.cong) (auto simp: orthonormal_uptoD)
  then show ?thesis
    using assms(4) by (simp add: dot_GS_step [OF assms(1,2) wf_col_length [OF assms(1) i]])
qed

lemma vec_norm_nonzeroI: "r < length v \<Longrightarrow> v ! r \<noteq> 0 \<Longrightarrow> vec_norm v \<noteq> 0"
  by (auto simp: vec_norm_zero_iff)

lemma lin_indep_GS_step:
  assumes "wf_matrix A" and "lin_indep A" and "j < ncols A"
  shows "lin_indep (set_col A j (GS_step A j))"
proof (rule lin_indep_column_operation [OF assms(2,3), of 1
      "\<lambda>k. if k < j then dot (col A k) (col A j) else 0"])
  fix r assume r: "r < nrows A"
  have "(\<Sum>k<ncols A. (if k < j then dot (col A k) (col A j) else 0) * col A k ! r) =
        (\<Sum>k<j. col A k ! r * dot (col A k) (col A j))"
  proof -
    have "(\<Sum>k<ncols A. (if k < j then dot (col A k) (col A j) else 0) * col A k ! r) =
          (\<Sum>k\<in>{..<ncols A}. if k \<in> {..<j} then col A k ! r * dot (col A k) (col A j) else 0)"
      by (intro sum.cong) simp_all
    also have "\<dots> = (\<Sum>k\<in>{..<ncols A} \<inter> {..<j}. col A k ! r * dot (col A k) (col A j))"
      by (simp add: sum.inter_restrict)
    also have "{..<ncols A} \<inter> {..<j} = {..<j}"
      using assms(3) by auto
    finally show ?thesis .
  qed
  then show "col (set_col A j (GS_step A j)) j ! r =
      (col A j ! r - (\<Sum>k<ncols A. (if k < j then dot (col A k) (col A j) else 0) * col A k ! r)) / 1"
    using assms r by (simp add: col_set_col nth_GS_step)
qed (use assms in \<open>simp_all add: col_set_col ncols_set_col nrows_set_col\<close>)

lemma lin_indep_normalize:
  assumes "wf_matrix A" and "lin_indep A" and "j < ncols A"
    and "normalize_vec (col A j) = Inr q"
  shows "lin_indep (set_col A j q)"
proof (rule lin_indep_column_operation [OF assms(2,3), of "vec_norm (col A j)" "\<lambda>k. 0"])
  show "vec_norm (col A j) \<noteq> 0"
    using normalize_vec_Inr(2) [OF assms(4)] .
next
  fix r assume "r < nrows A"
  then show "col (set_col A j q) j ! r =
      (col A j ! r - (\<Sum>k<ncols A. 0 * col A k ! r)) / vec_norm (col A j)"
    using assms(3) normalize_vec_Inr(3) [OF assms(4), of r] wf_col_length [OF assms(1,3)]
    by (simp add: col_set_col)
qed (use assms in \<open>simp_all add: col_set_col ncols_set_col nrows_set_col\<close>)

lemma normalize_lin_indep_total:
  assumes "wf_matrix A" and "lin_indep A" and "j < ncols A"
  shows "\<exists>q. normalize_vec (col A j) = Inr q"
proof -
  obtain r where "r < nrows A" "col A j ! r \<noteq> 0"
    using lin_indep_col_nonzero [OF assms(2,3)] by blast
  then have "vec_norm (col A j) \<noteq> 0"
    using wf_col_length [OF assms(1,3)] by (intro vec_norm_nonzeroI [of r]) simp_all
  then show ?thesis by (rule normalize_vec_total)
qed

text \<open>Column \<open>j\<close> is orthogonal to the \<open>j\<close> columns before it, which are orthonormal;
  once normalised, the first \<open>j + 1\<close> columns are orthonormal.\<close>

lemma orthonormal_upto_Suc:
  assumes wf: "wf_matrix A" and j: "j < ncols A" and on: "orthonormal_upto A j"
    and orth: "\<And>i. i < j \<Longrightarrow> dot (col A i) (col A j) = 0"
    and q: "normalize_vec (col A j) = Inr q"
  shows "orthonormal_upto (set_col A j q) (Suc j)"
  unfolding orthonormal_upto_def
proof (intro allI impI)
  fix i k assume i: "i < Suc j" and k: "k < Suc j"
  have lq: "length q = nrows A"
    using normalize_vec_Inr(1) [OF q] wf_col_length [OF wf j] by simp
  have oq: "dot (col A i) q = 0" if "i < j" for i
  proof -
    have "length (col A i) = length (col A j)"
      using that j wf by (simp add: wf_col_length)
    from dot_normalize_right [OF q this] orth [OF that] show ?thesis by simp
  qed
  have qo: "dot q (col A i) = 0" if "i < j" for i
  proof -
    have "length q = length (col A i)"
      using that j wf lq by (simp add: wf_col_length)
    then show ?thesis using oq [OF that] by (simp add: dot_commute)
  qed
  show "dot (col (set_col A j q) i) (col (set_col A j q) k) = (if i = k then 1 else 0)"
  proof (cases "i = j")
    case True
    show ?thesis
    proof (cases "k = j")
      case True
      with \<open>i = j\<close> j show ?thesis by (simp add: col_set_col dot_normalize_self [OF q])
    next
      case False
      with k have "k < j" by simp
      with \<open>i = j\<close> j show ?thesis by (simp add: col_set_col qo)
    qed
  next
    case False
    with i have ij: "i < j" by simp
    show ?thesis
    proof (cases "k = j")
      case True
      with ij j show ?thesis by (simp add: col_set_col oq)
    next
      case False
      with k have "k < j" by simp
      with ij j show ?thesis by (simp add: col_set_col orthonormal_uptoD [OF on])
    qed
  qed
qed

lemma GS_loop_correct:
  assumes "wf_matrix A" and "lin_indep A" and "orthonormal_upto A j"
  shows "\<exists>B. GS_loop A j = Inr B \<and> orthonormalised A B"
  using assms
proof (induction A j rule: GS_loop.induct)
  case (1 A j)
  show ?case
  proof (cases "j < ncols A")
    case False
    then have "orthonormal_upto A (ncols A)"
      using "1.prems"(3) by (simp add: orthonormal_upto_def)
    then show ?thesis
      using False "1.prems" by (subst GS_loop.simps) (simp add: orthonormalised_def)
  next
    case True
    let ?A1 = "set_col A j (GS_step A j)"
    have wf1: "wf_matrix ?A1"
      using "1.prems"(1) True by (simp add: wf_set_col length_GS_step)
    have li1: "lin_indep ?A1"
      using "1.prems" True by (simp add: lin_indep_GS_step)
    have j1: "j < ncols ?A1" using True by (simp add: ncols_set_col)
    obtain q where q: "normalize_vec (col ?A1 j) = Inr q"
      using normalize_lin_indep_total [OF wf1 li1 j1] by blast
    let ?A2 = "set_col ?A1 j q"
    have lq: "length q = nrows A"
      using normalize_vec_Inr(1) [OF q] wf_col_length [OF wf1 j1] by (simp add: nrows_set_col)
    have wf2: "wf_matrix ?A2"
      using wf1 lq by (simp add: wf_set_col nrows_set_col)
    have li2: "lin_indep ?A2"
      using wf1 li1 j1 q by (rule lin_indep_normalize)
    have on1: "orthonormal_upto ?A1 j"
      using "1.prems"(3) True by (simp add: orthonormal_upto_def col_set_col)
    have "dot (col ?A1 i) (col ?A1 j) = 0" if "i < j" for i
      using that True GS_step_orthogonal [OF "1.prems"(1) True "1.prems"(3) that]
      by (simp add: col_set_col)
    then have on2: "orthonormal_upto ?A2 (Suc j)"
      using orthonormal_upto_Suc [OF wf1 j1 on1 _ q] by blast
    obtain B where B: "GS_loop ?A2 (j + 1) = Inr B" "orthonormalised ?A2 B"
      using "1.IH" [OF True refl q wf2 li2] on2 by auto
    have "GS_loop A j = Inr B"
      using True q B(1) by (subst GS_loop.simps) (simp add: Let_def)
    moreover have "orthonormalised A B"
      using B(2) by (auto simp: orthonormalised_def ncols_set_col nrows_set_col)
    ultimately show ?thesis by blast
  qed
qed

lemma dot_vsub_smult:
  assumes "length u = n" and "length v = n" and "length w = n"
  shows "dot u (vsub v (smult c w)) = dot u v - c * dot u w"
proof -
  have "dot u (vsub v (smult c w)) = (\<Sum>r<n. u ! r * (v ! r - c * w ! r))"
    using assms by (simp add: dot_entries [OF assms(1)] nth_vsub nth_smult length_smult)
  also have "\<dots> = (\<Sum>r<n. u ! r * v ! r) - c * (\<Sum>r<n. u ! r * w ! r)"
    by (simp add: right_diff_distrib sum_subtractf sum_distrib_left mult_ac)
  finally show ?thesis by (simp add: dot_entries [OF assms(1)])
qed

lemma MGS_inner_step:
  assumes inv: "MGS_inner_inv A k j" and k: "k < ncols A" and j: "j < k"
  shows "MGS_inner_inv
           (set_col A k (vsub (col A k) (smult (dot (col A j) (col A k)) (col A j)))) k (Suc j)"
proof -
  let ?d = "dot (col A j) (col A k)"
  let ?v = "vsub (col A k) (smult ?d (col A j))"
  let ?B = "set_col A k ?v"
  have wf: "wf_matrix A" and li: "lin_indep A" and on: "orthonormal_upto A k"
    and orth: "\<And>i. i < j \<Longrightarrow> dot (col A i) (col A k) = 0"
    using inv by (simp_all add: MGS_inner_inv_def)
  have jm: "j < ncols A" using j k by simp
  have lk: "length (col A k) = nrows A" and lj: "length (col A j) = nrows A"
    using wf k jm by (simp_all add: wf_col_length)
  have lv: "length ?v = nrows A"
    by (simp add: length_vsub length_smult lk lj)
  have wfB: "wf_matrix ?B"
    using wf lv by (rule wf_set_col)
  have liB: "lin_indep ?B"
  proof (rule lin_indep_column_operation [OF li k, of 1 "\<lambda>i. if i = j then ?d else 0"])
    fix r assume r: "r < nrows A"
    have "(\<Sum>i<ncols A. (if i = j then ?d else 0) * col A i ! r) =
          (\<Sum>i<ncols A. if i = j then ?d * col A j ! r else 0)"
      by (intro sum.cong) simp_all
    then show "col ?B k ! r =
        (col A k ! r - (\<Sum>i<ncols A. (if i = j then ?d else 0) * col A i ! r)) / 1"
      using k jm r by (simp add: col_set_col nth_vsub nth_smult length_smult lk lj)
  qed (use j k in \<open>simp_all add: col_set_col ncols_set_col nrows_set_col\<close>)
  have onB: "orthonormal_upto ?B k"
    using on k by (simp add: orthonormal_upto_def col_set_col)
  have "dot (col ?B i) (col ?B k) = 0" if i: "i < Suc j" for i
  proof -
    have ik: "i < k" using i j by simp
    then have li: "length (col A i) = nrows A"
      using wf k by (simp add: wf_col_length)
    have "dot (col ?B i) (col ?B k) = dot (col A i) (col A k) - ?d * dot (col A i) (col A j)"
      using ik k by (simp add: col_set_col dot_vsub_smult [OF li lk lj])
    also have "\<dots> = 0"
    proof (cases "i = j")
      case True
      then show ?thesis using orthonormal_uptoD [OF on j j] by simp
    next
      case False
      with i have "i < j" by simp
      then show ?thesis
        using orth [of i] orthonormal_uptoD [OF on ik j] by simp
    qed
    finally show ?thesis .
  qed
  with wfB liB onB show ?thesis
    by (simp add: MGS_inner_inv_def)
qed

lemma MGS_inner_correct:
  assumes "MGS_inner_inv A k j" and "k < ncols A" and "j \<le> k"
  shows "MGS_inner_inv (MGS_inner A k j) k k \<and>
         nrows (MGS_inner A k j) = nrows A \<and> ncols (MGS_inner A k j) = ncols A"
  using assms
proof (induction A k j rule: MGS_inner.induct)
  case (1 A k j)
  show ?case
  proof (cases "j < k")
    case False
    with "1.prems" have "j = k" by simp
    with "1.prems" show ?thesis by (subst (1 2 3) MGS_inner.simps) simp
  next
    case True
    let ?B = "set_col A k (vsub (col A k) (smult (dot (col A j) (col A k)) (col A j)))"
    have "MGS_inner_inv ?B k (j + 1)"
      using MGS_inner_step [OF "1.prems"(1,2) True] by simp
    moreover have "k < ncols ?B" using "1.prems"(2) by (simp add: ncols_set_col)
    ultimately have "MGS_inner_inv (MGS_inner ?B k (j + 1)) k k \<and>
        nrows (MGS_inner ?B k (j + 1)) = nrows ?B \<and> ncols (MGS_inner ?B k (j + 1)) = ncols ?B"
      using "1.IH" [OF True] True by simp
    then show ?thesis
      using True by (subst (1 2 3) MGS_inner.simps) (simp add: ncols_set_col nrows_set_col)
  qed
qed

lemma MGS_loop_correct:
  assumes "wf_matrix A" and "lin_indep A" and "orthonormal_upto A k"
  shows "\<exists>B. MGS_loop A k = Inr B \<and> orthonormalised A B"
  using assms
proof (induction A k rule: MGS_loop.induct)
  case (1 A k)
  show ?case
  proof (cases "k < ncols A")
    case False
    then have "orthonormal_upto A (ncols A)"
      using "1.prems"(3) by (simp add: orthonormal_upto_def)
    then show ?thesis
      using False "1.prems" by (subst MGS_loop.simps) (simp add: orthonormalised_def)
  next
    case True
    let ?A1 = "MGS_inner A k 0"
    have "MGS_inner_inv A k 0"
      using "1.prems" by (simp add: MGS_inner_inv_def)
    from MGS_inner_correct [OF this True]
    have inv1: "MGS_inner_inv ?A1 k k" and sh1: "nrows ?A1 = nrows A" "ncols ?A1 = ncols A"
      by simp_all
    then have wf1: "wf_matrix ?A1" and li1: "lin_indep ?A1" and on1: "orthonormal_upto ?A1 k"
      and orth1: "\<And>i. i < k \<Longrightarrow> dot (col ?A1 i) (col ?A1 k) = 0"
      by (simp_all add: MGS_inner_inv_def)
    have k1: "k < ncols ?A1" using True sh1 by simp
    obtain q where q: "normalize_vec (col ?A1 k) = Inr q"
      using normalize_lin_indep_total [OF wf1 li1 k1] by blast
    let ?A2 = "set_col ?A1 k q"
    have lq: "length q = nrows ?A1"
      using normalize_vec_Inr(1) [OF q] wf_col_length [OF wf1 k1] by simp
    have wf2: "wf_matrix ?A2"
      using wf1 lq by (rule wf_set_col)
    have li2: "lin_indep ?A2"
      using wf1 li1 k1 q by (rule lin_indep_normalize)
    have on2: "orthonormal_upto ?A2 (Suc k)"
      using orthonormal_upto_Suc [OF wf1 k1 on1 orth1 q] by blast
    obtain B where B: "MGS_loop ?A2 (k + 1) = Inr B" "orthonormalised ?A2 B"
      using "1.IH" [OF True refl q wf2 li2] on2 by auto
    have "MGS_loop A k = Inr B"
      using True q B(1) by (subst MGS_loop.simps) (simp add: Let_def)
    moreover have "orthonormalised A B"
      using B(2) sh1 by (auto simp: orthonormalised_def ncols_set_col nrows_set_col)
    ultimately show ?thesis by blast
  qed
qed

lemma treatFirstCol_correct:
  assumes "wf_matrix A" and "lin_indep A" and "0 \<le> L" and "L < cols A"
    and "orthonormal_upto A (nat L)"
  shows "\<exists>B L'. treatFirstCol A L = Inr (B, L') \<and> wf_matrix B \<and> lin_indep B \<and>
           nrows B = nrows A \<and> ncols B = ncols A \<and> orthonormal_upto B (nat L')"
proof (cases "L = 0")
  case False
  with assms show ?thesis by (simp add: treatFirstCol_def)
next
  case True
  have m: "0 < ncols A" using assms(3,4) by (simp add: cols_ncols)
  obtain q where q: "normalize_vec (col A 0) = Inr q"
    using normalize_lin_indep_total [OF assms(1,2) m] by blast
  have lq: "length q = nrows A"
    using normalize_vec_Inr(1) [OF q] wf_col_length [OF assms(1) m] by simp
  have "orthonormal_upto A 0" by (simp add: orthonormal_upto_def)
  then have "orthonormal_upto (set_col A 0 q) (Suc 0)"
    using orthonormal_upto_Suc [OF assms(1) m _ _ q] by simp
  moreover have "wf_matrix (set_col A 0 q)"
    using assms(1) lq by (rule wf_set_col)
  moreover have "lin_indep (set_col A 0 q)"
    using assms(1,2) m q by (rule lin_indep_normalize)
  ultimately show ?thesis
    using True q by (simp add: treatFirstCol_def ncols_set_col nrows_set_col)
qed

lemma GS_orthogonalisation_correct:
  assumes "wf_matrix A" and "lin_indep A" and "0 \<le> L" and "L < cols A"
    and "orthonormal_upto A (nat L)"
  shows "\<exists>B. GS_orthogonalisation A L = Inr B \<and> orthonormalised A B"
proof -
  obtain A' L' where t: "treatFirstCol A L = Inr (A', L')" "wf_matrix A'" "lin_indep A'"
      "nrows A' = nrows A" "ncols A' = ncols A" "orthonormal_upto A' (nat L')"
    using treatFirstCol_correct [OF assms] by blast
  obtain B where "GS_loop A' (nat L') = Inr B" "orthonormalised A' B"
    using GS_loop_correct [OF t(2,3,6)] by blast
  then show ?thesis
    using t assms(3,4)
    by (auto simp: GS_orthogonalisation_def assert_leftColsToSkip_ok orthonormalised_def)
qed

lemma MGS_orthogonalisation_correct:
  assumes "wf_matrix A" and "lin_indep A" and "0 \<le> L" and "L < cols A"
    and "orthonormal_upto A (nat L)"
  shows "\<exists>B. MGS_orthogonalisation A L = Inr B \<and> orthonormalised A B"
proof -
  obtain A' L' where t: "treatFirstCol A L = Inr (A', L')" "wf_matrix A'" "lin_indep A'"
      "nrows A' = nrows A" "ncols A' = ncols A" "orthonormal_upto A' (nat L')"
    using treatFirstCol_correct [OF assms] by blast
  obtain B where "MGS_loop A' (nat L') = Inr B" "orthonormalised A' B"
    using MGS_loop_correct [OF t(2,3,6)] by blast
  then show ?thesis
    using t assms(3,4)
    by (auto simp: MGS_orthogonalisation_def assert_leftColsToSkip_ok orthonormalised_def)
qed

lemma mat_eqI:
  fixes A B :: "'a matrix"
  assumes "nrows A = nrows B" and "columns A = columns B"
  shows "A = B"
  using assms by simp

lemma gram_identity:
  assumes "wf_matrix B" and "orthonormal_upto B (ncols B)"
  shows "mat_mul (transposeM B) B = Identity (ncols B) (ncols B)"
proof (rule mat_eqI)
  show "nrows (mat_mul (transposeM B) B) = nrows (Identity (ncols B) (ncols B) :: real matrix)"
    by (simp add: mat_mul_def Identity_def nrows_transposeM)
  show "columns (mat_mul (transposeM B) B) = columns (Identity (ncols B) (ncols B) :: real matrix)"
  proof (rule nth_equalityI)
    show "length (columns (mat_mul (transposeM B) B)) =
          length (columns (Identity (ncols B) (ncols B) :: real matrix))"
      by (simp add: mat_mul_def Identity_def ncols_def)
  next
    fix j assume "j < length (columns (mat_mul (transposeM B) B))"
    then have j: "j < ncols B" by (simp add: mat_mul_def ncols_def)
    have "mat_vec (transposeM B) (col B j) = map (\<lambda>i. if i = j then 1 else 0) [0..<ncols B]"
    proof (rule nth_equalityI)
      fix i assume "i < length (mat_vec (transposeM B) (col B j))"
      then have i: "i < ncols B" by (simp add: length_mat_vec nrows_transposeM)
      then show "mat_vec (transposeM B) (col B j) ! i =
                 map (\<lambda>i. if i = j then 1 else 0) [0..<ncols B] ! i"
        using orthonormal_uptoD [OF assms(2) i j] by (simp add: nth_mat_vec_transposeM [OF assms(1)])
    qed (simp add: length_mat_vec nrows_transposeM)
    then show "columns (mat_mul (transposeM B) B) ! j =
               columns (Identity (ncols B) (ncols B) :: real matrix) ! j"
      using j by (simp add: mat_mul_def Identity_def col_def ncols_def)
  qed
qed

lemma orthonormal_unit_norm:
  assumes "orthonormal_upto B m" and "i < m"
  shows "vec_norm (col B i) = 1"
  using orthonormal_uptoD [OF assms(1) assms(2) assms(2)]
  by (simp add: vec_norm_def squaredNorm_dot)

section \<open>partial_orthogonalisation with nothing to skip\<close>

text \<open>
  Claim C7. For every matrix \<open>A\<close>, \<open>partial_orthogonalisation(A, 0)\<close> returns at once and
  leaves the whole matrix as it is: no projection, no normalisation (a column of norm
  zero is no error here). The call is within the routine's precondition
  \<open>0 \<le> leftColsToSkip < cols\<close>, which at \<open>leftColsToSkip = 0\<close> says that the matrix has a
  column.
\<close>

theorem partial_orthogonalisation_zero_noop:
  "0 < ncols A \<Longrightarrow> partial_orthogonalisation A 0 = Inr A"
  by (simp add: partial_orthogonalisation_def assert_leftColsToSkip_def cols_def ncols_def)

theorem partial_orthogonalisation_zero_noop_witness:
  "partial_orthogonalisation \<lparr>nrows = 2, columns = [[0, 0], [3, 4]]\<rparr> 0 =
     Inr \<lparr>nrows = 2, columns = [[0, 0], [3, 4]]\<rparr>"
  using partial_orthogonalisation_zero_noop [of "\<lparr>nrows = 2, columns = [[0, 0], [3, 4]]\<rparr>"]
  by (simp add: ncols_def)

section \<open>Normalising a vector of norm zero\<close>

text \<open>
  Claim C10. No routine looks at the norm before it divides by it. With
  \<open>leftColsToSkip\<close> inside its bounds, the division by a zero norm is reached: in
  \<open>treatFirstCol\<close> when column 0 is the zero vector, and in \<open>GS_orthogonalisation\<close>,
  \<open>MGS_orthogonalisation\<close> and \<open>partial_orthogonalisation\<close> when a later column is a
  multiple of column 0, so that what is left of it after the projection is the zero
  vector.
\<close>

theorem zero_norm_reachable:
  "treatFirstCol \<lparr>nrows = 2, columns = [[0, 0], [1, 0]]\<rparr> 0 = Inl ZeroNorm \<and>
   GS_orthogonalisation \<lparr>nrows = 2, columns = [[0, 0], [1, 0]]\<rparr> 0 = Inl ZeroNorm \<and>
   MGS_orthogonalisation \<lparr>nrows = 2, columns = [[0, 0], [1, 0]]\<rparr> 0 = Inl ZeroNorm \<and>
   GS_orthogonalisation \<lparr>nrows = 2, columns = [[1, 0], [2, 0]]\<rparr> 0 = Inl ZeroNorm \<and>
   MGS_orthogonalisation \<lparr>nrows = 2, columns = [[1, 0], [2, 0]]\<rparr> 0 = Inl ZeroNorm \<and>
   GS_orthogonalisation \<lparr>nrows = 2, columns = [[1, 0], [2, 0]]\<rparr> 1 = Inl ZeroNorm \<and>
   MGS_orthogonalisation \<lparr>nrows = 2, columns = [[1, 0], [2, 0]]\<rparr> 1 = Inl ZeroNorm \<and>
   partial_orthogonalisation \<lparr>nrows = 2, columns = [[1, 0], [2, 0]]\<rparr> 1 = Inl ZeroNorm \<and>
   twice_is_enough_orthogonalisation \<lparr>nrows = 2, columns = [[1, 0], [2, 0]]\<rparr> 1 = Inl ZeroNorm \<and>
   JensWehner_orthogonalisation hq \<lparr>nrows = 2, columns = [[1, 0], [2, 0]]\<rparr> 1 = Inl ZeroNorm"
proof -
  let ?Z = "\<lparr>nrows = 2, columns = [[0, 0], [1, 0 :: real]]\<rparr>"
  let ?D = "\<lparr>nrows = 2, columns = [[1, 0], [2, 0 :: real]]\<rparr>"
  have t: "treatFirstCol ?Z 0 = Inl ZeroNorm"
    by (simp add: eval_primitives)
  have gz: "GS_orthogonalisation ?Z 0 = Inl ZeroNorm"
    by (simp add: GS_orthogonalisation_def eval_primitives)
  have mz: "MGS_orthogonalisation ?Z 0 = Inl ZeroNorm"
    by (simp add: MGS_orthogonalisation_def eval_primitives)
  have gd: "GS_orthogonalisation ?D 0 = Inl ZeroNorm"
    by (simp add: GS_orthogonalisation_def GS_loop.simps eval_primitives)
  have md: "MGS_orthogonalisation ?D 0 = Inl ZeroNorm"
    by (simp add: MGS_orthogonalisation_def MGS_loop.simps MGS_inner.simps eval_primitives)
  have gd1: "GS_orthogonalisation ?D 1 = Inl ZeroNorm"
    by (simp add: GS_orthogonalisation_def GS_loop.simps eval_primitives)
  have md1: "MGS_orthogonalisation ?D 1 = Inl ZeroNorm"
    by (simp add: MGS_orthogonalisation_def MGS_loop.simps MGS_inner.simps eval_primitives)
  have pd: "partial_orthogonalisation ?D 1 = Inl ZeroNorm"
    by (simp add: partial_orthogonalisation_def eval_primitives)
  have td: "twice_is_enough_orthogonalisation ?D 1 = Inl ZeroNorm"
    by (simp add: twice_is_enough_orthogonalisation_def gd1)
  have jd: "JensWehner_orthogonalisation hq ?D 1 = Inl ZeroNorm"
    by (simp add: JensWehner_orthogonalisation_def pd assert_leftColsToSkip_def cols_def)
  from t gz mz gd md gd1 md1 pd td jd show ?thesis
    by blast
qed

section \<open>Gram-Schmidt on a matrix with linearly independent columns\<close>

lemma GS_orthogonalisation_Inr_ncols: "GS_orthogonalisation A L = Inr B \<Longrightarrow> L < cols A"
  by (auto simp: GS_orthogonalisation_def assert_leftColsToSkip_def split: if_splits)

lemma MGS_orthogonalisation_Inr_ncols: "MGS_orthogonalisation A L = Inr B \<Longrightarrow> L < cols A"
  by (auto simp: MGS_orthogonalisation_def assert_leftColsToSkip_def split: if_splits)

lemma orthonormalised_facts:
  assumes "orthonormalised A B"
  shows "nrows B = nrows A \<and> ncols B = ncols A \<and>
     (\<forall>i<ncols B. \<forall>j<ncols B. i \<noteq> j \<longrightarrow> dot (col B i) (col B j) = 0) \<and>
     (\<forall>i<ncols B. vec_norm (col B i) = 1) \<and>
     mat_mul (transposeM B) B = Identity (ncols B) (ncols B)"
  using assms
  by (auto simp: orthonormalised_def gram_identity orthonormal_unit_norm orthonormal_uptoD)

text \<open>
  Claim C1. Let the columns of the real matrix \<open>A\<close> be linearly independent. If \<open>A\<close> has a
  column at all, \<open>GS_orthogonalisation(A, 0)\<close> and \<open>MGS_orthogonalisation(A, 0)\<close> return
  (no division by a zero norm); and in the matrix either of them returns, distinct columns
  have inner product 0, every column has Euclidean norm 1, and the Gram matrix is the
  identity.
\<close>

theorem Gram_Schmidt_orthonormal:
  assumes "wf_matrix A" and "lin_indep A"
  shows "(0 < ncols A \<longrightarrow>
            (\<exists>B. GS_orthogonalisation A 0 = Inr B) \<and> (\<exists>B. MGS_orthogonalisation A 0 = Inr B)) \<and>
         (\<forall>B. GS_orthogonalisation A 0 = Inr B \<or> MGS_orthogonalisation A 0 = Inr B \<longrightarrow>
            nrows B = nrows A \<and> ncols B = ncols A \<and>
            (\<forall>i<ncols B. \<forall>j<ncols B. i \<noteq> j \<longrightarrow> dot (col B i) (col B j) = 0) \<and>
            (\<forall>i<ncols B. vec_norm (col B i) = 1) \<and>
            mat_mul (transposeM B) B = Identity (ncols B) (ncols B))"
proof -
  have on: "orthonormal_upto A (nat 0)"
    by (simp add: orthonormal_upto_def)
  have gs: "\<exists>B. GS_orthogonalisation A 0 = Inr B \<and> orthonormalised A B"
    and mgs: "\<exists>B. MGS_orthogonalisation A 0 = Inr B \<and> orthonormalised A B"
    if "0 < cols A"
    using GS_orthogonalisation_correct [OF assms _ that on]
      MGS_orthogonalisation_correct [OF assms _ that on] by simp_all
  show ?thesis
  proof (rule conjI)
    show "0 < ncols A \<longrightarrow>
      (\<exists>B. GS_orthogonalisation A 0 = Inr B) \<and> (\<exists>B. MGS_orthogonalisation A 0 = Inr B)"
    proof (rule impI)
      assume "0 < ncols A"
      then have "0 < cols A" by (simp add: cols_ncols)
      from gs [OF this] mgs [OF this]
      show "(\<exists>B. GS_orthogonalisation A 0 = Inr B) \<and> (\<exists>B. MGS_orthogonalisation A 0 = Inr B)"
        by blast
    qed
  next
    show "\<forall>B. GS_orthogonalisation A 0 = Inr B \<or> MGS_orthogonalisation A 0 = Inr B \<longrightarrow>
            nrows B = nrows A \<and> ncols B = ncols A \<and>
            (\<forall>i<ncols B. \<forall>j<ncols B. i \<noteq> j \<longrightarrow> dot (col B i) (col B j) = 0) \<and>
            (\<forall>i<ncols B. vec_norm (col B i) = 1) \<and>
            mat_mul (transposeM B) B = Identity (ncols B) (ncols B)"
    proof (rule allI, rule impI)
      fix B
      assume B: "GS_orthogonalisation A 0 = Inr B \<or> MGS_orthogonalisation A 0 = Inr B"
      then have "0 < cols A"
        using GS_orthogonalisation_Inr_ncols MGS_orthogonalisation_Inr_ncols by blast
      from gs [OF this] mgs [OF this] B have "orthonormalised A B"
        by auto
      then show "nrows B = nrows A \<and> ncols B = ncols A \<and>
            (\<forall>i<ncols B. \<forall>j<ncols B. i \<noteq> j \<longrightarrow> dot (col B i) (col B j) = 0) \<and>
            (\<forall>i<ncols B. vec_norm (col B i) = 1) \<and>
            mat_mul (transposeM B) B = Identity (ncols B) (ncols B)"
        by (rule orthonormalised_facts)
    qed
  qed
qed

lemma lin_indep_example: "lin_indep \<lparr>nrows = 2, columns = [[2, 0], [3, 4]]\<rparr>"
  by (simp add: lin_indep_def ncols_def col_def eval_nat_numeral less_Suc_eq all_conj_distrib)

lemma GS_example_0:
  "GS_orthogonalisation \<lparr>nrows = 2, columns = [[2, 0], [3, 4]]\<rparr> 0 =
     Inr \<lparr>nrows = 2, columns = [[1, 0], [0, 1]]\<rparr>"
  by (simp add: GS_orthogonalisation_def GS_loop.simps eval_primitives)

lemma MGS_example_0:
  "MGS_orthogonalisation \<lparr>nrows = 2, columns = [[2, 0], [3, 4]]\<rparr> 0 =
     Inr \<lparr>nrows = 2, columns = [[1, 0], [0, 1]]\<rparr>"
  by (simp add: MGS_orthogonalisation_def MGS_loop.simps MGS_inner.simps eval_primitives)

theorem Gram_Schmidt_orthonormal_witness:
  "wf_matrix \<lparr>nrows = 2, columns = [[2, 0], [3, 4 :: real]]\<rparr> \<and>
   lin_indep \<lparr>nrows = 2, columns = [[2, 0], [3, 4]]\<rparr> \<and>
   GS_orthogonalisation \<lparr>nrows = 2, columns = [[2, 0], [3, 4]]\<rparr> 0 =
     Inr \<lparr>nrows = 2, columns = [[1, 0], [0, 1]]\<rparr> \<and>
   MGS_orthogonalisation \<lparr>nrows = 2, columns = [[2, 0], [3, 4]]\<rparr> 0 =
     Inr \<lparr>nrows = 2, columns = [[1, 0], [0, 1]]\<rparr> \<and>
   mat_mul (transposeM \<lparr>nrows = 2, columns = [[1, 0], [0, 1 :: real]]\<rparr>)
     \<lparr>nrows = 2, columns = [[1, 0], [0, 1]]\<rparr> =
     Identity (ncols \<lparr>nrows = 2, columns = [[1, 0], [0, 1 :: real]]\<rparr>)
       (ncols \<lparr>nrows = 2, columns = [[1, 0], [0, 1 :: real]]\<rparr>)"
proof -
  have wf: "wf_matrix \<lparr>nrows = 2, columns = [[2, 0], [3, 4 :: real]]\<rparr>"
    by (simp add: wf_matrix_def)
  have "mat_mul (transposeM \<lparr>nrows = 2, columns = [[1, 0], [0, 1 :: real]]\<rparr>)
     \<lparr>nrows = 2, columns = [[1, 0], [0, 1]]\<rparr> =
     Identity (ncols \<lparr>nrows = 2, columns = [[1, 0], [0, 1 :: real]]\<rparr>)
       (ncols \<lparr>nrows = 2, columns = [[1, 0], [0, 1 :: real]]\<rparr>)"
    using Gram_Schmidt_orthonormal [OF wf lin_indep_example, THEN conjunct2, rule_format,
        OF disjI1 [OF GS_example_0]]
    by (elim conjE)
  with wf lin_indep_example GS_example_0 MGS_example_0 show ?thesis
    by blast
qed

section \<open>Gram-Schmidt on columns that are orthonormal already\<close>

lemma normalize_vec_unit: "vec_norm v = 1 \<Longrightarrow> normalize_vec v = Inr v"
  by (simp add: normalize_vec_def)

lemma set_col_same: "set_col A j (col A j) = A"
  by (simp add: set_col_def col_def)

lemma GS_step_orthonormal:
  assumes "wf_matrix A" and "j < ncols A" and "orthonormal_upto A (ncols A)"
  shows "GS_step A j = col A j"
proof (rule nth_equalityI)
  show "length (GS_step A j) = length (col A j)"
    using assms by (simp add: length_GS_step wf_col_length)
next
  fix r assume "r < length (GS_step A j)"
  then have r: "r < nrows A"
    using assms by (simp add: length_GS_step)
  have "(\<Sum>k<j. col A k ! r * dot (col A k) (col A j)) = (\<Sum>k<j. 0)"
    using assms(2) by (intro sum.cong) (simp_all add: orthonormal_uptoD [OF assms(3)])
  then show "GS_step A j ! r = col A j ! r"
    using assms r by (simp add: nth_GS_step)
qed

lemma GS_loop_orthonormal:
  assumes "wf_matrix A" and "orthonormal_upto A (ncols A)"
  shows "GS_loop A j = Inr A"
  using assms
proof (induction A j rule: GS_loop.induct)
  case (1 A j)
  show ?case
  proof (cases "j < ncols A")
    case False
    then show ?thesis by (subst GS_loop.simps) simp
  next
    case True
    have s: "set_col A j (GS_step A j) = A"
      using GS_step_orthonormal [OF "1.prems"(1) True "1.prems"(2)] by (simp add: set_col_same)
    have n: "normalize_vec (col A j) = Inr (col A j)"
      using orthonormal_unit_norm [OF "1.prems"(2) True] by (rule normalize_vec_unit)
    have "GS_loop (set_col (set_col A j (GS_step A j)) j (col A j)) (j + 1) =
          Inr (set_col (set_col A j (GS_step A j)) j (col A j))"
      using "1.IH" [OF True refl, of "col A j"] "1.prems" n by (simp add: s set_col_same)
    then show ?thesis
      using True n by (subst GS_loop.simps) (simp add: Let_def s set_col_same)
  qed
qed

lemma GS_orthogonalisation_orthonormal:
  assumes "wf_matrix A" and "orthonormal_upto A (ncols A)" and "0 \<le> L" and "L < cols A"
  shows "GS_orthogonalisation A L = Inr A"
proof -
  have "0 < ncols A" using assms(3,4) by (simp add: cols_ncols)
  then have "normalize_vec (col A 0) = Inr (col A 0)"
    using orthonormal_unit_norm [OF assms(2)] by (intro normalize_vec_unit) simp
  then have "treatFirstCol A L = Inr (A, if L = 0 then 1 else L)"
    by (simp add: treatFirstCol_def set_col_same)
  then show ?thesis
    using assms by (simp add: GS_orthogonalisation_def assert_leftColsToSkip_ok GS_loop_orthonormal)
qed

text \<open>
  Claim C8. For every matrix \<open>A\<close> whose columns are orthonormal and every \<open>L\<close> with
  \<open>0 \<le> L < cols\<close>, \<open>twice_is_enough_orthogonalisation(A, L)\<close> returns \<open>A\<close> unchanged.
\<close>

theorem twice_is_enough_orthonormal_input:
  assumes "wf_matrix A" and "orthonormal_upto A (ncols A)" and "0 \<le> L" and "L < cols A"
  shows "twice_is_enough_orthogonalisation A L = Inr A"
  by (simp add: twice_is_enough_orthogonalisation_def GS_orthogonalisation_orthonormal [OF assms])

lemma orthonormal_example:
  "orthonormal_upto \<lparr>nrows = 2, columns = [[3 / 5, 4 / 5], [- 4 / 5, 3 / 5]]\<rparr>
     (ncols \<lparr>nrows = 2, columns = [[3 / 5, 4 / 5], [- 4 / 5, 3 / 5 :: real]]\<rparr>)"
  by (simp add: orthonormal_upto_def ncols_def col_def dot_def less_Suc_eq all_conj_distrib)

theorem twice_is_enough_orthonormal_input_witness:
  "twice_is_enough_orthogonalisation \<lparr>nrows = 2, columns = [[3 / 5, 4 / 5], [- 4 / 5, 3 / 5]]\<rparr> 0 =
     Inr \<lparr>nrows = 2, columns = [[3 / 5, 4 / 5], [- 4 / 5, 3 / 5]]\<rparr> \<and>
   twice_is_enough_orthogonalisation \<lparr>nrows = 2, columns = [[3 / 5, 4 / 5], [- 4 / 5, 3 / 5]]\<rparr> 1 =
     Inr \<lparr>nrows = 2, columns = [[3 / 5, 4 / 5], [- 4 / 5, 3 / 5]]\<rparr>"
proof -
  have wf: "wf_matrix \<lparr>nrows = 2, columns = [[3 / 5, 4 / 5], [- 4 / 5, 3 / 5 :: real]]\<rparr>"
    by (simp add: wf_matrix_def)
  show ?thesis
    using twice_is_enough_orthonormal_input [OF wf orthonormal_example, of 0]
      twice_is_enough_orthonormal_input [OF wf orthonormal_example, of 1]
    by (simp add: cols_def)
qed

section \<open>partial_orthogonalisation against an orthonormal prefix\<close>

lemma GS_step_residual: "GS_step A j = residual A j (col A j)"
  by (simp add: GS_step_def residual_def)

lemma length_residual:
  "length v = nrows A \<Longrightarrow> length (residual A L v) = nrows A"
  by (simp add: residual_def length_vsub length_mat_vec leftCols_simps)

lemma nth_residual:
  assumes "wf_matrix A" and "L \<le> ncols A" and "length v = nrows A" and "r < nrows A"
  shows "residual A L v ! r = v ! r - (\<Sum>k<L. col A k ! r * dot (col A k) v)"
proof -
  let ?L = "leftCols A L"
  have "mat_vec ?L (mat_vec (transposeM ?L) v) ! r =
        (\<Sum>k<L. col ?L k ! r * mat_vec (transposeM ?L) v ! k)"
    using assms(2,4) by (simp add: nth_mat_vec leftCols_simps)
  also have "\<dots> = (\<Sum>k<L. col A k ! r * dot (col A k) v)"
    using wf_leftCols [OF assms(1), of L] assms(2)
    by (intro sum.cong) (simp_all add: nth_mat_vec_transposeM leftCols_simps)
  finally show ?thesis
    using assms
    by (simp add: residual_def nth_vsub length_mat_vec leftCols_simps)
qed

lemma dot_residual:
  assumes "wf_matrix A" and "L \<le> ncols A" and "length v = nrows A" and "length u = nrows A"
  shows "dot u (residual A L v) = dot u v - (\<Sum>k<L. dot (col A k) v * dot u (col A k))"
proof -
  let ?d = "\<lambda>k. dot (col A k) v"
  have "dot u (residual A L v) =
        (\<Sum>r<nrows A. u ! r * (v ! r - (\<Sum>k<L. col A k ! r * ?d k)))"
    by (simp add: dot_entries [OF assms(4)] nth_residual assms)
  also have "\<dots> = (\<Sum>r<nrows A. u ! r * v ! r) - (\<Sum>r<nrows A. \<Sum>k<L. ?d k * (u ! r * col A k ! r))"
    by (simp add: right_diff_distrib sum_subtractf sum_distrib_left mult_ac)
  also have "(\<Sum>r<nrows A. \<Sum>k<L. ?d k * (u ! r * col A k ! r)) =
             (\<Sum>k<L. \<Sum>r<nrows A. ?d k * (u ! r * col A k ! r))"
    by (rule sum.swap)
  also have "\<dots> = (\<Sum>k<L. ?d k * dot u (col A k))"
    by (simp add: dot_entries [OF assms(4)] sum_distrib_left)
  finally show ?thesis
    by (simp add: dot_entries [OF assms(4)])
qed

lemma residual_orthogonal:
  assumes "wf_matrix A" and "L \<le> ncols A" and "length v = nrows A"
    and "orthonormal_upto A L" and "i < L"
  shows "dot (col A i) (residual A L v) = 0"
proof -
  have i: "i < ncols A" using assms by simp
  have "(\<Sum>k<L. dot (col A k) v * dot (col A i) (col A k)) =
        (\<Sum>k<L. if k = i then dot (col A i) v else 0)"
    using assms(4,5) by (intro sum.cong) (auto simp: orthonormal_uptoD)
  then show ?thesis
    using assms(5)
    by (simp add: dot_residual [OF assms(1,2,3) wf_col_length [OF assms(1) i]])
qed

lemma residual_nonzero:
  assumes "wf_matrix A" and "L \<le> ncols A" and "length v = nrows A"
    and "\<not> in_span_left A L v"
  shows "vec_norm (residual A L v) \<noteq> 0"
proof
  assume "vec_norm (residual A L v) = 0"
  then have "\<forall>r<nrows A. residual A L v ! r = 0"
    using assms(3) by (simp add: vec_norm_zero_iff length_residual)
  then have "\<forall>r<nrows A. v ! r = (\<Sum>k<L. dot (col A k) v * col A k ! r)"
    using assms(1,2,3) by (simp add: nth_residual mult.commute)
  then have "in_span_left A L v"
    unfolding in_span_left_def by (rule exI [of _ "\<lambda>k. dot (col A k) v"])
  with assms(4) show False by simp
qed

subsection \<open>What partial_orthogonalisation computes\<close>

lemma colwise_normalize_Inr_iff:
  "colwise_normalize cs = Inr vs \<longleftrightarrow>
     length vs = length cs \<and> (\<forall>i<length cs. normalize_vec (cs ! i) = Inr (vs ! i))"
proof (induction cs arbitrary: vs)
  case Nil
  then show ?case by auto
next
  case (Cons c cs)
  show ?case
  proof (cases vs)
    case Nil
    then show ?thesis by (auto split: sum.splits)
  next
    case (Cons w ws)
    then show ?thesis
      using Cons.IH [of ws]
      by (auto simp: less_Suc_eq_0_disj split: sum.splits)
  qed
qed

lemma colwise_normalize_total:
  "(\<And>c. c \<in> set cs \<Longrightarrow> vec_norm c \<noteq> 0) \<Longrightarrow> \<exists>vs. colwise_normalize cs = Inr vs"
proof (induction cs)
  case Nil
  then show ?case by simp
next
  case (Cons c cs)
  then obtain vs where "colwise_normalize cs = Inr vs" by auto
  moreover have "\<exists>q. normalize_vec c = Inr q"
    using Cons.prems by (intro normalize_vec_total) simp
  ultimately show ?case by auto
qed

lemma partial_orthogonalisation_unfold:
  assumes "1 \<le> L" and "L < cols A"
  shows "partial_orthogonalisation A L =
     (case colwise_normalize (map (residual A (nat L)) (drop (nat L) (columns A))) of
        Inl e \<Rightarrow> Inl e
      | Inr cs \<Rightarrow> Inr (A\<lparr>columns := take (nat L) (columns A) @ cs\<rparr>))"
proof -
  have n: "ncols A - nat (cols A - L) = nat L" "nat L \<le> length (columns A)"
    "nat (cols A - L) = length (columns A) - nat L"
    using assms by (simp_all add: cols_def ncols_def)
  have m: "map2 vsub (drop (nat L) (columns A))
       (map (mat_vec (leftCols A (nat L)) \<circ> mat_vec (transposeM (leftCols A (nat L))))
          (drop (nat L) (columns A))) =
     map (residual A (nat L)) (drop (nat L) (columns A))"
    by (rule nth_equalityI) (simp_all add: residual_def)
  show ?thesis
    using assms n
    by (simp add: partial_orthogonalisation_def assert_leftColsToSkip_ok Let_def
        set_rightCols_def rightCols_def ncols_def mat_sub_def mat_mul_def m
        split: sum.splits)
qed

lemma partial_orthogonalisation_result:
  assumes wf: "wf_matrix A" and L: "1 \<le> L" "L < cols A"
    and on: "orthonormal_upto A (nat L)"
    and span: "\<forall>j. nat L \<le> j \<and> j < ncols A \<longrightarrow> \<not> in_span_left A (nat L) (col A j)"
  shows "\<exists>B. partial_orthogonalisation A L = Inr B \<and>
           nrows B = nrows A \<and> ncols B = ncols A \<and> leftCols B (nat L) = leftCols A (nat L) \<and>
           (\<forall>j. nat L \<le> j \<and> j < ncols B \<longrightarrow>
              normalize_vec (residual A (nat L) (col A j)) = Inr (col B j))"
proof -
  let ?l = "nat L"
  let ?rs = "map (residual A ?l) (drop ?l (columns A))"
  have lm: "?l \<le> ncols A" "?l < ncols A"
    using L by (simp_all add: cols_ncols)
  have "vec_norm c \<noteq> 0" if "c \<in> set ?rs" for c
  proof -
    from that obtain i where i: "i < ncols A - ?l" "c = residual A ?l (col A (?l + i))"
      using lm by (auto simp: in_set_conv_nth ncols_def col_def)
    then have j: "?l + i < ncols A" by simp
    have "\<not> in_span_left A ?l (col A (?l + i))"
      using span j by simp
    then show ?thesis
      using i(2) residual_nonzero [OF wf lm(1) wf_col_length [OF wf j]] by simp
  qed
  then obtain cs where cs: "colwise_normalize ?rs = Inr cs"
    using colwise_normalize_total by blast
  then have len: "length cs = ncols A - ?l"
    and nth: "\<And>i. i < ncols A - ?l \<Longrightarrow> normalize_vec (?rs ! i) = Inr (cs ! i)"
    by (simp_all add: colwise_normalize_Inr_iff ncols_def)
  let ?B = "A\<lparr>columns := take ?l (columns A) @ cs\<rparr>"
  have "partial_orthogonalisation A L = Inr ?B"
    using cs by (simp add: partial_orthogonalisation_unfold [OF L])
  moreover have "ncols ?B = ncols A"
    using lm len by (simp add: ncols_def)
  moreover have "leftCols ?B ?l = leftCols A ?l"
    using lm by (simp add: leftCols_def ncols_def)
  moreover have "normalize_vec (residual A ?l (col A j)) = Inr (col ?B j)"
    if "?l \<le> j \<and> j < ncols ?B" for j
  proof -
    from that lm len have j: "?l \<le> j" "j < ncols A" by (simp_all add: ncols_def)
    then have "j - ?l < ncols A - ?l" by simp
    from nth [OF this] j lm show ?thesis
      by (simp add: col_def ncols_def nth_append)
  qed
  ultimately show ?thesis by auto
qed

lemma partial_not_orthonormal_example:
  "partial_orthogonalisation \<lparr>nrows = 3, columns = [[1, 0, 0], [0, 1, 0], [0, 3, 4]]\<rparr> 1 =
     Inr \<lparr>nrows = 3, columns = [[1, 0, 0], [0, 1, 0], [0, 3 / 5, 4 / 5]]\<rparr>"
  by (simp add: partial_orthogonalisation_def eval_primitives)

lemma partial_example_hypotheses:
  "wf_matrix \<lparr>nrows = 3, columns = [[1, 0, 0], [0, 1, 0], [0, 3, 4 :: real]]\<rparr>"
  "orthonormal_upto \<lparr>nrows = 3, columns = [[1, 0, 0], [0, 1, 0], [0, 3, 4]]\<rparr> (nat 1)"
  "\<forall>j. nat 1 \<le> j \<and> j < ncols \<lparr>nrows = 3, columns = [[1, 0, 0], [0, 1, 0], [0, 3, 4 :: real]]\<rparr> \<longrightarrow>
     \<not> in_span_left \<lparr>nrows = 3, columns = [[1, 0, 0], [0, 1, 0], [0, 3, 4]]\<rparr> (nat 1)
         (col \<lparr>nrows = 3, columns = [[1, 0, 0], [0, 1, 0], [0, 3, 4]]\<rparr> j)"
    apply (simp add: wf_matrix_def)
   apply (simp add: orthonormal_upto_def col_def dot_def)
  apply (auto simp: in_span_left_def ncols_def col_def eval_nat_numeral less_Suc_eq
      all_conj_distrib)
  done

lemma vec_norm_normalized: "normalize_vec v = Inr q \<Longrightarrow> vec_norm q = 1"
  using dot_normalize_self [of v q] by (simp add: vec_norm_def squaredNorm_dot)

lemma partial_orthogonalisation_post:
  assumes wf: "wf_matrix A" and L: "1 \<le> L" "L < cols A"
    and on: "orthonormal_upto A (nat L)"
    and span: "\<forall>j. nat L \<le> j \<and> j < ncols A \<longrightarrow> \<not> in_span_left A (nat L) (col A j)"
  shows "\<exists>B. partial_orthogonalisation A L = Inr B \<and> wf_matrix B \<and>
           nrows B = nrows A \<and> ncols B = ncols A \<and> leftCols B (nat L) = leftCols A (nat L) \<and>
           (\<forall>i<nat L. col B i = col A i) \<and>
           (\<forall>j. nat L \<le> j \<and> j < ncols B \<longrightarrow>
              normalize_vec (residual A (nat L) (col A j)) = Inr (col B j) \<and>
              vec_norm (col B j) = 1 \<and> (\<forall>i<nat L. dot (col B i) (col B j) = 0))"
proof -
  let ?l = "nat L"
  have lm: "?l \<le> ncols A" using L by (simp add: cols_ncols)
  obtain B where B: "partial_orthogonalisation A L = Inr B" "nrows B = nrows A"
      "ncols B = ncols A" "leftCols B ?l = leftCols A ?l"
      "\<And>j. ?l \<le> j \<and> j < ncols B \<Longrightarrow> normalize_vec (residual A ?l (col A j)) = Inr (col B j)"
    using partial_orthogonalisation_result [OF assms] by blast
  have ci: "col B i = col A i" if i: "i < ?l" for i
  proof -
    have "col B i = col (leftCols B ?l) i"
      using i by (simp add: leftCols_simps)
    then show ?thesis
      using i by (simp add: B(4) leftCols_simps)
  qed
  have right: "vec_norm (col B j) = 1 \<and> (\<forall>i<?l. dot (col B i) (col B j) = 0)"
    if j: "?l \<le> j \<and> j < ncols B" for j
  proof (intro conjI allI impI)
    note q = B(5) [OF j]
    show "vec_norm (col B j) = 1"
      using q by (rule vec_norm_normalized)
    fix i assume i: "i < ?l"
    have lj: "length (col A j) = nrows A"
      using j B(3) wf by (simp add: wf_col_length)
    have li: "length (col A i) = nrows A"
      using i lm wf by (simp add: wf_col_length)
    have "dot (col A i) (col B j) =
          dot (col A i) (residual A ?l (col A j)) / vec_norm (residual A ?l (col A j))"
      using li lj by (intro dot_normalize_right [OF q]) (simp add: length_residual)
    then show "dot (col B i) (col B j) = 0"
      using residual_orthogonal [OF wf lm lj on i] ci [OF i] by simp
  qed
  have "wf_matrix B"
  proof (rule wf_matrixI)
    fix k assume k: "k < ncols B"
    show "length (col B k) = nrows B"
    proof (cases "k < ?l")
      case True
      then show ?thesis
        using ci [OF True] lm wf B(2) by (simp add: wf_col_length)
    next
      case False
      with k have j: "?l \<le> k \<and> k < ncols B" by simp
      have "length (col A k) = nrows A"
        using k B(3) wf by (simp add: wf_col_length)
      then show ?thesis
        using normalize_vec_Inr(1) [OF B(5) [OF j]] B(2) by (simp add: length_residual)
    qed
  qed
  with B(1-4) ci right B(5) show ?thesis
    by blast
qed

text \<open>
  Claim C3. Let \<open>1 \<le> L < cols\<close>, let columns \<open>[0, L)\<close> of \<open>A\<close> be orthonormal and let no
  column of \<open>[L, cols)\<close> be in their span. Then \<open>partial_orthogonalisation(A, L)\<close> returns
  a matrix of the same shape with the same first \<open>L\<close> columns, in which every column of
  \<open>[L, cols)\<close> has norm 1 and is orthogonal to every column of \<open>[0, L)\<close>. Nothing makes
  the columns of \<open>[L, cols)\<close> orthogonal to each other: it is not so that under these
  hypotheses all columns of the result are orthonormal.
\<close>

theorem partial_orthogonalisation_correct:
  assumes "wf_matrix A" and "1 \<le> L" and "L < cols A"
    and "orthonormal_upto A (nat L)"
    and "\<forall>j. nat L \<le> j \<and> j < ncols A \<longrightarrow> \<not> in_span_left A (nat L) (col A j)"
  shows "(\<exists>B. partial_orthogonalisation A L = Inr B \<and>
            nrows B = nrows A \<and> ncols B = ncols A \<and> leftCols B (nat L) = leftCols A (nat L) \<and>
            (\<forall>j. nat L \<le> j \<and> j < ncols B \<longrightarrow>
               vec_norm (col B j) = 1 \<and> (\<forall>i<nat L. dot (col B i) (col B j) = 0))) \<and>
         \<not> (\<forall>A' L' B'.
               wf_matrix A' \<and> 1 \<le> L' \<and> L' < cols A' \<and> orthonormal_upto A' (nat L') \<and>
               (\<forall>j. nat L' \<le> j \<and> j < ncols A' \<longrightarrow> \<not> in_span_left A' (nat L') (col A' j)) \<and>
               partial_orthogonalisation A' L' = Inr B' \<longrightarrow>
               orthonormal_upto B' (ncols B'))"
proof (rule conjI)
  show "\<exists>B. partial_orthogonalisation A L = Inr B \<and>
            nrows B = nrows A \<and> ncols B = ncols A \<and> leftCols B (nat L) = leftCols A (nat L) \<and>
            (\<forall>j. nat L \<le> j \<and> j < ncols B \<longrightarrow>
               vec_norm (col B j) = 1 \<and> (\<forall>i<nat L. dot (col B i) (col B j) = 0))"
    using partial_orthogonalisation_post [OF assms] by blast
next
  let ?E = "\<lparr>nrows = 3, columns = [[1, 0, 0], [0, 1, 0], [0, 3, 4 :: real]]\<rparr>"
  let ?F = "\<lparr>nrows = 3, columns = [[1, 0, 0], [0, 1, 0], [0, 3 / 5, 4 / 5 :: real]]\<rparr>"
  show "\<not> (\<forall>A' L' B'.
               wf_matrix A' \<and> 1 \<le> L' \<and> L' < cols A' \<and> orthonormal_upto A' (nat L') \<and>
               (\<forall>j. nat L' \<le> j \<and> j < ncols A' \<longrightarrow> \<not> in_span_left A' (nat L') (col A' j)) \<and>
               partial_orthogonalisation A' L' = Inr B' \<longrightarrow>
               orthonormal_upto B' (ncols B'))"
  proof
    assume "\<forall>A' L' B'.
               wf_matrix A' \<and> 1 \<le> L' \<and> L' < cols A' \<and> orthonormal_upto A' (nat L') \<and>
               (\<forall>j. nat L' \<le> j \<and> j < ncols A' \<longrightarrow> \<not> in_span_left A' (nat L') (col A' j)) \<and>
               partial_orthogonalisation A' L' = Inr B' \<longrightarrow>
               orthonormal_upto B' (ncols B')"
    then have "wf_matrix ?E \<and> (1::int) \<le> 1 \<and> 1 < cols ?E \<and> orthonormal_upto ?E (nat 1) \<and>
               (\<forall>j. nat 1 \<le> j \<and> j < ncols ?E \<longrightarrow> \<not> in_span_left ?E (nat 1) (col ?E j)) \<and>
               partial_orthogonalisation ?E 1 = Inr ?F \<longrightarrow>
               orthonormal_upto ?F (ncols ?F)"
      by blast
    then have "orthonormal_upto ?F (ncols ?F)"
      using partial_example_hypotheses partial_not_orthonormal_example
      by (simp add: cols_def)
    then have "dot (col ?F 1) (col ?F 2) = 0"
      by (simp add: orthonormal_upto_def ncols_def)
    then show False
      by (simp add: col_def dot_def eval_nat_numeral)
  qed
qed

theorem partial_orthogonalisation_correct_witness:
  "\<exists>B. partial_orthogonalisation
          \<lparr>nrows = 3, columns = [[1, 0, 0], [0, 1, 0], [0, 3, 4]]\<rparr> 1 = Inr B \<and>
       leftCols B (nat 1) =
         leftCols \<lparr>nrows = 3, columns = [[1, 0, 0], [0, 1, 0], [0, 3, 4]]\<rparr> (nat 1) \<and>
       vec_norm (col B 2) = 1 \<and> dot (col B 0) (col B 2) = 0"
proof -
  from partial_orthogonalisation_correct [OF partial_example_hypotheses(1) _ _
      partial_example_hypotheses(2,3)]
  obtain B where B: "partial_orthogonalisation
          \<lparr>nrows = 3, columns = [[1, 0, 0], [0, 1, 0], [0, 3, 4]]\<rparr> 1 = Inr B"
      "ncols B = ncols \<lparr>nrows = 3, columns = [[1, 0, 0], [0, 1, 0], [0, 3, 4 :: real]]\<rparr>"
      "leftCols B (nat 1) =
         leftCols \<lparr>nrows = 3, columns = [[1, 0, 0], [0, 1, 0], [0, 3, 4]]\<rparr> (nat 1)"
      "\<And>j. nat 1 \<le> j \<and> j < ncols B \<Longrightarrow>
         vec_norm (col B j) = 1 \<and> (\<forall>i<nat 1. dot (col B i) (col B j) = 0)"
    by (auto simp: cols_def)
  from B(4) [of 2] B(2) have "vec_norm (col B 2) = 1 \<and> dot (col B 0) (col B 2) = 0"
    by (simp add: ncols_def)
  with B(1,3) show ?thesis by blast
qed

section \<open>GS_orthogonalisation on a complex matrix\<close>

lemmas eval_complex =
  assert_leftColsToSkip_def cols_def treatFirstCol_complex_def col_def normalize_vec_complex_def
  vec_norm_complex_def squaredNorm_complex_def set_col_def GS_step_complex_def ncols_def
  leftCols_def transposeM_def mat_vec_def vsub_def smult_def dot_complex_def
  eval_nat_numeral Let_def

lemma imaginary_unit_sandwich: "\<i> * c * \<i> = - c"
proof -
  have "\<i> * c * \<i> = c * (\<i> * \<i>)" by (simp only: mult_ac)
  then show ?thesis by simp
qed

text \<open>
  Claim C5 says that \<open>GS_orthogonalisation(A, 0)\<close> makes the columns of a complex matrix
  with linearly independent columns orthonormal for the Hermitian inner product. The
  routine computes the projection coefficients with \<^verbatim>\<open>transpose()\<close>, without
  conjugation. On the matrix with columns \<open>(\<i>, 0)\<close> and \<open>(2, 3)\<close> the coefficient is
  \<open>2\<i>\<close> where the Hermitian inner product is \<open>-2\<i>\<close>: the second column becomes
  \<open>(4/5, 3/5)\<close>, whose Hermitian inner product with the first is \<open>-4\<i>/5\<close>, not 0.
  \<open>MGS_orthogonalisation\<close>, which uses \<^verbatim>\<open>dot\<close>, returns the orthonormal columns
  \<open>(\<i>, 0)\<close> and \<open>(0, 1)\<close> on the same matrix.
\<close>

theorem GS_orthogonalisation_complex_not_orthogonal:
  "GS_orthogonalisation_complex \<lparr>nrows = 2, columns = [[\<i>, 0], [2, 3]]\<rparr> 0 =
     Inr \<lparr>nrows = 2, columns = [[\<i>, 0], [4 / 5, 3 / 5]]\<rparr> \<and>
   dot_complex [\<i>, 0] [4 / 5, 3 / 5] = - (4 / 5) * \<i> \<and>
   MGS_orthogonalisation_complex \<lparr>nrows = 2, columns = [[\<i>, 0], [2, 3]]\<rparr> 0 =
     Inr \<lparr>nrows = 2, columns = [[\<i>, 0], [0, 1]]\<rparr> \<and>
   dot_complex [\<i>, 0] [0, 1] = 0"
proof -
  have g: "GS_orthogonalisation_complex \<lparr>nrows = 2, columns = [[\<i>, 0], [2, 3]]\<rparr> 0 =
     Inr \<lparr>nrows = 2, columns = [[\<i>, 0], [4 / 5, 3 / 5]]\<rparr>"
    by (simp add: GS_orthogonalisation_complex_def GS_loop_complex.simps eval_complex)
  have m: "MGS_orthogonalisation_complex \<lparr>nrows = 2, columns = [[\<i>, 0], [2, 3]]\<rparr> 0 =
     Inr \<lparr>nrows = 2, columns = [[\<i>, 0], [0, 1]]\<rparr>"
    by (simp add: MGS_orthogonalisation_complex_def MGS_loop_complex.simps
        MGS_inner_complex.simps eval_complex imaginary_unit_sandwich)
  have d: "dot_complex [\<i>, 0] [4 / 5, 3 / 5] = - (4 / 5) * \<i>" "dot_complex [\<i>, 0] [0, 1] = 0"
    by (simp_all add: dot_complex_def eval_nat_numeral)
  from g m d show ?thesis by blast
qed

section \<open>The limits TypeTraits returns\<close>

text \<open>
  Claim C9. \<open>TypeTraits<Scalar>::min()\<close> is \<open>std::numeric_limits<Scalar>::min()\<close> when
  \<open>Scalar\<close> is \<open>float\<close>, \<open>double\<close> or \<open>long double\<close>, and the cube of the epsilon of the
  type for every other scalar type; \<open>TypeTraits<Scalar>::epsilon()\<close> is the epsilon of the
  limits of the type in all cases.
\<close>

theorem TypeTraits_limits:
  "TypeTraits_min std_limits eigen_limits Float = limits_min (std_limits Float) \<and>
   TypeTraits_min std_limits eigen_limits Double = limits_min (std_limits Double) \<and>
   TypeTraits_min std_limits eigen_limits Long_double = limits_min (std_limits Long_double) \<and>
   TypeTraits_min std_limits eigen_limits (Other name) =
     limits_epsilon (eigen_limits (Other name)) * limits_epsilon (eigen_limits (Other name)) *
     limits_epsilon (eigen_limits (Other name)) \<and>
   TypeTraits_epsilon std_limits eigen_limits Float = limits_epsilon (std_limits Float) \<and>
   TypeTraits_epsilon std_limits eigen_limits Double = limits_epsilon (std_limits Double) \<and>
   TypeTraits_epsilon std_limits eigen_limits Long_double = limits_epsilon (std_limits Long_double) \<and>
   TypeTraits_epsilon std_limits eigen_limits (Other name) =
     limits_epsilon (eigen_limits (Other name))"
  by (simp add: TypeTraits_min_def TypeTraits_epsilon_def TypeTraits_generic_min_def
      TypeTraits_generic_epsilon_def TypeTraits_float_min_def TypeTraits_float_epsilon_def
      TypeTraits_double_min_def TypeTraits_double_epsilon_def TypeTraits_long_double_min_def
      TypeTraits_long_double_epsilon_def)

section \<open>JensWehner_orthogonalisation\<close>

subsection \<open>Spans of the first columns\<close>

lemma sum_restrict_less:
  fixes X :: "nat \<Rightarrow> real"
  assumes "j \<le> m"
  shows "(\<Sum>k<m. if k < j then X k else 0) = (\<Sum>k<j. X k)"
proof -
  have "(\<Sum>k<m. if k < j then X k else 0) = (\<Sum>k\<in>{..<m}. if k \<in> {..<j} then X k else 0)"
    by (intro sum.cong) simp_all
  also have "\<dots> = (\<Sum>k\<in>{..<m} \<inter> {..<j}. X k)"
    by (simp add: sum.inter_restrict)
  also have "{..<m} \<inter> {..<j} = {..<j}"
    using assms by auto
  finally show ?thesis .
qed

lemma in_span_left_mono:
  assumes "in_span_left A L v" and "L \<le> L'"
  shows "in_span_left A L' v"
proof -
  obtain f where f: "\<forall>r<nrows A. v ! r = (\<Sum>k<L. f k * col A k ! r)"
    using assms(1) by (auto simp: in_span_left_def)
  have "v ! r = (\<Sum>k<L'. (if k < L then f k else 0) * col A k ! r)" if "r < nrows A" for r
  proof -
    have "(\<Sum>k<L'. (if k < L then f k else 0) * col A k ! r) =
          (\<Sum>k<L'. if k < L then f k * col A k ! r else 0)"
      by (intro sum.cong) simp_all
    then show ?thesis
      using f that sum_restrict_less [OF assms(2)] by simp
  qed
  then show ?thesis
    unfolding in_span_left_def by (intro exI [of _ "\<lambda>k. if k < L then f k else 0"]) simp
qed

lemma in_span_left_self:
  assumes "j < L"
  shows "in_span_left A L (col A j)"
proof -
  have "col A j ! r = (\<Sum>k<L. (if k = j then 1 else 0) * col A k ! r)" for r
  proof -
    have "(\<Sum>k<L. (if k = j then 1 else 0) * col A k ! r) =
          (\<Sum>k<L. if k = j then col A j ! r else 0)"
      by (intro sum.cong) simp_all
    then show ?thesis using assms by simp
  qed
  then show ?thesis
    unfolding in_span_left_def by (intro exI [of _ "\<lambda>k. if k = j then 1 else 0"]) simp
qed

lemma in_span_left_combination:
  assumes u: "\<forall>i<j. in_span_left A L (u i)"
    and v: "\<forall>r<nrows A. v ! r = (\<Sum>i<j. c i * u i ! r)"
  shows "in_span_left A L v"
proof -
  have "\<forall>i\<in>{..<j}. \<exists>f. \<forall>r<nrows A. u i ! r = (\<Sum>k<L. f k * col A k ! r)"
    using u by (simp add: in_span_left_def)
  then obtain G where G: "\<forall>i\<in>{..<j}. \<forall>r<nrows A. u i ! r = (\<Sum>k<L. G i k * col A k ! r)"
    by (rule bchoice [THEN exE])
  have "v ! r = (\<Sum>k<L. (\<Sum>i<j. c i * G i k) * col A k ! r)" if r: "r < nrows A" for r
  proof -
    have "v ! r = (\<Sum>i<j. c i * (\<Sum>k<L. G i k * col A k ! r))"
      using v G r by simp
    also have "\<dots> = (\<Sum>i<j. \<Sum>k<L. c i * G i k * col A k ! r)"
      by (simp add: sum_distrib_left mult.assoc)
    also have "\<dots> = (\<Sum>k<L. \<Sum>i<j. c i * G i k * col A k ! r)"
      by (rule sum.swap)
    finally show ?thesis by (simp add: sum_distrib_right)
  qed
  then show ?thesis
    unfolding in_span_left_def by (intro exI [of _ "\<lambda>k. \<Sum>i<j. c i * G i k"]) simp
qed

lemma lin_indep_not_in_span:
  assumes "lin_indep A" and "j < ncols A"
  shows "\<not> in_span_left A j (col A j)"
proof
  assume "in_span_left A j (col A j)"
  then obtain f where f: "\<forall>r<nrows A. col A j ! r = (\<Sum>k<j. f k * col A k ! r)"
    by (auto simp: in_span_left_def)
  let ?f = "\<lambda>k. if k < j then f k else if k = j then - 1 else 0"
  have "(\<Sum>k<ncols A. ?f k * col A k ! r) = 0" if r: "r < nrows A" for r
  proof -
    have "(\<Sum>k<ncols A. ?f k * col A k ! r) = (\<Sum>k<Suc j. ?f k * col A k ! r)"
      using assms(2) by (intro sum.mono_neutral_right) auto
    also have "\<dots> = (\<Sum>k<j. f k * col A k ! r) - col A j ! r"
      by simp
    finally show ?thesis using f r by simp
  qed
  then have "?f j = 0"
    by (rule lin_indepD [OF assms(1) _ assms(2)])
  then show False by simp
qed

lemma in_span_left_cong:
  "in_span_left A L v \<Longrightarrow> \<forall>r<nrows A. v' ! r = v ! r \<Longrightarrow> in_span_left A L v'"
  by (auto simp: in_span_left_def)

subsection \<open>The columns of the factor Q of linearly independent columns\<close>

lemma QR_factor_column:
  fixes M Q :: "real matrix"
  assumes "\<forall>j<ncols M. \<forall>r<nrows M.
      col M j ! r = (\<Sum>i<nrows M. (if i \<le> j then R i j else 0) * col Q i ! r)"
    and "j < ncols M" and "k \<le> nrows M" and "r < nrows M"
    and "k = Suc j \<or> (k = nrows M \<and> nrows M \<le> j)"
  shows "col M j ! r = (\<Sum>i<k. R i j * col Q i ! r)"
proof -
  have "col M j ! r = (\<Sum>i<nrows M. (if i \<le> j then R i j else 0) * col Q i ! r)"
    using assms(1,2,4) by simp
  also have "\<dots> = (\<Sum>i<nrows M. if i < k then R i j * col Q i ! r else 0)"
    using assms(5) by (intro sum.cong) auto
  also have "\<dots> = (\<Sum>i<k. R i j * col Q i ! r)"
    using assms(3) by (rule sum_restrict_less)
  finally show ?thesis .
qed

lemma QR_factor_in_span:
  fixes M Q :: "real matrix"
  assumes R: "\<forall>j<ncols M. \<forall>r<nrows M.
      col M j ! r = (\<Sum>i<nrows M. (if i \<le> j then R i j else 0) * col Q i ! r)"
    and li: "lin_indep M"
  shows "j < ncols M \<Longrightarrow> j < nrows M \<Longrightarrow> in_span_left M (Suc j) (col Q j)"
proof (induction j rule: less_induct)
  case (less j)
  have IH: "\<forall>i<j. in_span_left M j (col Q i)"
  proof (intro allI impI)
    fix i assume i: "i < j"
    then have "in_span_left M (Suc i) (col Q i)"
      using less.IH [of i] less.prems by simp
    then show "in_span_left M j (col Q i)"
      using i by (auto intro: in_span_left_mono [of M "Suc i" _ j])
  qed
  define w where "w = map (\<lambda>r. \<Sum>i<j. R i j * col Q i ! r) [0..<nrows M]"
  have w: "w ! r = (\<Sum>i<j. R i j * col Q i ! r)" if "r < nrows M" for r
    using that by (simp add: w_def)
  have w_span: "in_span_left M j w"
    using IH w by (auto intro: in_span_left_combination [of j M j "\<lambda>i. col Q i" w "\<lambda>i. R i j"])
  have Mj: "col M j ! r = R j j * col Q j ! r + w ! r" if r: "r < nrows M" for r
    using QR_factor_column [OF R less.prems(1) _ r, of "Suc j"] less.prems(2) w [OF r]
    by simp
  have Rjj: "R j j \<noteq> 0"
  proof
    assume "R j j = 0"
    then have "\<forall>r<nrows M. col M j ! r = w ! r"
      using Mj by simp
    then have "in_span_left M j (col M j)"
      by (rule in_span_left_cong [OF w_span])
    then show False
      using lin_indep_not_in_span [OF li less.prems(1)] by simp
  qed
  let ?u = "\<lambda>i::nat. if i = 0 then col M j else w"
  let ?c = "\<lambda>i::nat. if i = 0 then 1 / R j j else - (1 / R j j)"
  have "\<forall>i<2. in_span_left M (Suc j) (?u i)"
    using in_span_left_self [of j "Suc j" M] in_span_left_mono [OF w_span, of "Suc j"]
    by simp
  moreover have "\<forall>r<nrows M. col Q j ! r = (\<Sum>i<2. ?c i * ?u i ! r)"
  proof (intro allI impI)
    fix r assume r: "r < nrows M"
    have "(\<Sum>i<2. ?c i * ?u i ! r) = 1 / R j j * col M j ! r - 1 / R j j * w ! r"
      by (simp add: numeral_2_eq_2)
    also have "\<dots> = 1 / R j j * (R j j * col Q j ! r)"
      unfolding Mj [OF r] by (simp add: algebra_simps)
    also have "\<dots> = col Q j ! r"
      using Rjj by simp
    finally show "col Q j ! r = (\<Sum>i<2. ?c i * ?u i ! r)" by simp
  qed
  ultimately show ?case
    by (rule in_span_left_combination)
qed

lemma QR_factor_ncols_le:
  fixes M Q :: "real matrix"
  assumes R: "\<forall>j<ncols M. \<forall>r<nrows M.
      col M j ! r = (\<Sum>i<nrows M. (if i \<le> j then R i j else 0) * col Q i ! r)"
    and li: "lin_indep M"
  shows "ncols M \<le> nrows M"
proof (rule ccontr)
  assume "\<not> ncols M \<le> nrows M"
  then have n: "nrows M < ncols M" by simp
  let ?n = "nrows M"
  have "\<forall>i<?n. in_span_left M ?n (col Q i)"
  proof (intro allI impI)
    fix i assume i: "i < ?n"
    then have "in_span_left M (Suc i) (col Q i)"
      using QR_factor_in_span [OF R li, of i] n by simp
    then show "in_span_left M ?n (col Q i)"
      using i by (auto intro: in_span_left_mono [of M "Suc i" _ ?n])
  qed
  moreover have "\<forall>r<?n. col M ?n ! r = (\<Sum>i<?n. R i ?n * col Q i ! r)"
    using QR_factor_column [OF R n, of ?n] by simp
  ultimately have "in_span_left M ?n (col M ?n)"
    by (rule in_span_left_combination)
  then show False
    using lin_indep_not_in_span [OF li n] by simp
qed

lemma dot_in_span_zero:
  assumes "in_span_left M k v" and "length p = nrows M"
    and "\<forall>l<k. dot p (col M l) = 0"
  shows "dot p v = 0"
proof -
  obtain f where f: "\<forall>r<nrows M. v ! r = (\<Sum>l<k. f l * col M l ! r)"
    using assms(1) by (auto simp: in_span_left_def)
  have "dot p v = (\<Sum>r<nrows M. p ! r * (\<Sum>l<k. f l * col M l ! r))"
    using f by (simp add: dot_entries [OF assms(2)])
  also have "\<dots> = (\<Sum>r<nrows M. \<Sum>l<k. f l * (p ! r * col M l ! r))"
    by (simp add: sum_distrib_left mult_ac)
  also have "\<dots> = (\<Sum>l<k. \<Sum>r<nrows M. f l * (p ! r * col M l ! r))"
    by (rule sum.swap)
  also have "\<dots> = (\<Sum>l<k. f l * dot p (col M l))"
    by (simp add: dot_entries [OF assms(2)] sum_distrib_left)
  also have "\<dots> = 0"
    using assms(3) by simp
  finally show ?thesis .
qed

subsection \<open>The value of QR_orthogonalisation\<close>

lemma mat_vec_unit:
  fixes Q :: "real matrix"
  assumes "wf_matrix Q" and "j < ncols Q"
  shows "mat_vec Q (map (\<lambda>i. if i = j then 1 else 0) [0..<ncols Q]) = col Q j"
proof (rule nth_equalityI)
  show "length (mat_vec Q (map (\<lambda>i. if i = j then 1 else 0) [0..<ncols Q])) = length (col Q j)"
    using assms by (simp add: length_mat_vec wf_col_length)
next
  fix r assume "r < length (mat_vec Q (map (\<lambda>i. if i = j then 1 else 0) [0..<ncols Q]))"
  then have r: "r < nrows Q" by (simp add: length_mat_vec)
  have "(\<Sum>k<ncols Q. col Q k ! r * map (\<lambda>i. if i = j then 1 else 0) [0..<ncols Q] ! k) =
        (\<Sum>k<ncols Q. if k = j then col Q j ! r else 0)"
    by (intro sum.cong) simp_all
  then show "mat_vec Q (map (\<lambda>i. if i = j then 1 else 0) [0..<ncols Q]) ! r = col Q j ! r"
    using r assms(2) by (simp add: nth_mat_vec)
qed

lemma QR_orthogonalisation_columns:
  assumes "wf_matrix (hq M)" and "nrows (hq M) = nrows M" and "ncols (hq M) = nrows M"
  shows "QR_orthogonalisation hq M =
     \<lparr>nrows = nrows M, columns = take (min (nrows M) (ncols M)) (columns (hq M))\<rparr>"
proof -
  let ?k = "min (nrows M) (ncols M)"
  have "map (mat_vec (hq M)) (columns (Identity (nrows M) ?k)) = take ?k (columns (hq M))"
  proof (rule nth_equalityI)
    show "length (map (mat_vec (hq M)) (columns (Identity (nrows M) ?k))) =
          length (take ?k (columns (hq M)))"
      using assms(3) by (simp add: Identity_def ncols_def)
  next
    fix j assume "j < length (map (mat_vec (hq M)) (columns (Identity (nrows M) ?k)))"
    then have j: "j < ?k" by (simp add: Identity_def)
    then have jq: "j < ncols (hq M)" using assms(3) by simp
    have "mat_vec (hq M) (map (\<lambda>i. if i = j then 1 else 0) [0..<nrows M]) = col (hq M) j"
      using mat_vec_unit [OF assms(1) jq] assms(3) by simp
    then show "map (mat_vec (hq M)) (columns (Identity (nrows M) ?k)) ! j =
               take ?k (columns (hq M)) ! j"
      using j by (simp add: Identity_def col_def)
  qed
  then show ?thesis
    using assms(2) by (simp add: QR_orthogonalisation_def Let_def mat_mul_def)
qed

subsection \<open>Linear independence after partial_orthogonalisation\<close>

lemma sum_split_at:
  fixes X :: "nat \<Rightarrow> real"
  assumes "L \<le> m"
  shows "(\<Sum>k<m. X k) = (\<Sum>k<L. X k) + (\<Sum>k=L..<m. X k)"
  using sum.atLeastLessThan_concat [of 0 L m X] assms
  by (simp add: atLeast0LessThan)

lemma lin_indep_block_operation:
  assumes li: "lin_indep A" and L: "L \<le> ncols A"
    and shape: "nrows B = nrows A" "ncols B = ncols A"
    and left: "\<And>k r. k < L \<Longrightarrow> r < nrows A \<Longrightarrow> col B k ! r = col A k ! r"
    and right: "\<And>j r. L \<le> j \<Longrightarrow> j < ncols A \<Longrightarrow> r < nrows A \<Longrightarrow>
        col B j ! r = (col A j ! r - (\<Sum>k<L. c j k * col A k ! r)) / s j"
    and s: "\<And>j. L \<le> j \<Longrightarrow> j < ncols A \<Longrightarrow> s j \<noteq> 0"
  shows "lin_indep B"
  unfolding lin_indep_def
proof (intro allI impI)
  fix g k
  assume z: "\<forall>r<nrows B. (\<Sum>k<ncols B. g k * col B k ! r) = 0" and k: "k < ncols B"
  let ?m = "ncols A"
  define f where "f k = (if k < L then g k - (\<Sum>j=L..<?m. g j / s j * c j k) else g k / s k)" for k
  have "(\<Sum>k<?m. f k * col A k ! r) = 0" if r: "r < nrows A" for r
  proof -
    have b1: "(\<Sum>k<L. g k * col B k ! r) = (\<Sum>k<L. g k * col A k ! r)"
      by (intro sum.cong) (simp_all add: left r)
    have b2: "(\<Sum>j=L..<?m. g j * col B j ! r) =
        (\<Sum>j=L..<?m. g j / s j * col A j ! r - (\<Sum>k<L. g j / s j * c j k * col A k ! r))"
      by (intro sum.cong)
         (simp_all add: right r diff_divide_distrib right_diff_distrib sum_distrib_left
           sum_divide_distrib mult.assoc)
    have b3: "\<dots> = (\<Sum>j=L..<?m. g j / s j * col A j ! r) -
        (\<Sum>j=L..<?m. \<Sum>k<L. g j / s j * c j k * col A k ! r)"
      by (simp add: sum_subtractf)
    have a1: "(\<Sum>k<L. f k * col A k ! r) =
        (\<Sum>k<L. g k * col A k ! r - (\<Sum>j=L..<?m. g j / s j * c j k * col A k ! r))"
      by (intro sum.cong) (simp_all add: f_def left_diff_distrib sum_distrib_right)
    have a2: "\<dots> = (\<Sum>k<L. g k * col A k ! r) -
        (\<Sum>k<L. \<Sum>j=L..<?m. g j / s j * c j k * col A k ! r)"
      by (simp add: sum_subtractf)
    have a3: "(\<Sum>j=L..<?m. f j * col A j ! r) = (\<Sum>j=L..<?m. g j / s j * col A j ! r)"
      by (intro sum.cong) (simp_all add: f_def)
    have sw: "(\<Sum>k<L. \<Sum>j=L..<?m. g j / s j * c j k * col A k ! r) =
        (\<Sum>j=L..<?m. \<Sum>k<L. g j / s j * c j k * col A k ! r)"
      by (rule sum.swap)
    have "(\<Sum>k<?m. f k * col A k ! r) = (\<Sum>k<?m. g k * col B k ! r)"
      unfolding sum_split_at [OF L] a1 a2 a3 b1 b2 b3 sw by simp
    then show ?thesis using z r shape by simp
  qed
  then have f0: "\<And>k. k < ?m \<Longrightarrow> f k = 0"
    by (rule lin_indepD [OF li])
  have g0: "g j = 0" if "L \<le> j" "j < ?m" for j
    using f0 [OF that(2)] that s [OF that] by (simp add: f_def)
  show "g k = 0"
  proof (cases "k < L")
    case False
    then show ?thesis using g0 [of k] k shape by simp
  next
    case True
    have "(\<Sum>j=L..<?m. g j / s j * c j k) = (\<Sum>j=L..<?m. 0)"
      by (intro sum.cong) (simp_all add: g0)
    then show ?thesis
      using f0 [of k] True k shape by (simp add: f_def)
  qed
qed

lemma lin_indep_rightCols:
  assumes "lin_indep A" and "k \<le> ncols A"
  shows "lin_indep (rightCols A k)"
  unfolding lin_indep_def
proof (intro allI impI)
  let ?M = "rightCols A k"
  let ?L = "ncols A - k"
  fix g j
  assume z: "\<forall>r<nrows ?M. (\<Sum>i<ncols ?M. g i * col ?M i ! r) = 0" and j: "j < ncols ?M"
  have nc: "ncols ?M = k" and nr: "nrows ?M = nrows A"
    using assms(2) by (simp_all add: rightCols_def ncols_def)
  have cM: "col ?M i = col A (?L + i)" if "i < k" for i
    using that assms(2) by (simp add: rightCols_def ncols_def col_def)
  let ?f = "\<lambda>i. if i < ?L then 0 else g (i - ?L)"
  have "(\<Sum>i<ncols A. ?f i * col A i ! r) = 0" if r: "r < nrows A" for r
  proof -
    have "(\<Sum>i<ncols A. ?f i * col A i ! r) =
          (\<Sum>i<?L. ?f i * col A i ! r) + (\<Sum>i=?L..<ncols A. ?f i * col A i ! r)"
      by (rule sum_split_at) simp
    also have "(\<Sum>i<?L. ?f i * col A i ! r) = 0"
      by simp
    also have "(\<Sum>i=?L..<ncols A. ?f i * col A i ! r) =
               (\<Sum>i=?L..<ncols A. g (i - ?L) * col A i ! r)"
      by (intro sum.cong) simp_all
    also have "\<dots> = (\<Sum>i=0 + ?L..<k + ?L. g (i - ?L) * col A i ! r)"
      using assms(2) by simp
    also have "\<dots> = (\<Sum>i=0..<k. g (i + ?L - ?L) * col A (i + ?L) ! r)"
      by (rule sum.shift_bounds_nat_ivl)
    also have "\<dots> = (\<Sum>i<k. g i * col ?M i ! r)"
      by (simp add: atLeast0LessThan cM add.commute)
    finally show ?thesis using z r nc nr by simp
  qed
  moreover have "?L + j < ncols A"
    using j nc assms(2) by simp
  ultimately have "?f (?L + j) = 0"
    by (rule lin_indepD [OF assms(1)])
  then show "g j = 0" by simp
qed

lemma partial_orthogonalisation_lin_indep:
  assumes wf: "wf_matrix A" and li: "lin_indep A" and lm: "l \<le> ncols A"
    and shape: "nrows B = nrows A" "ncols B = ncols A"
    and left: "\<forall>i<l. col B i = col A i"
    and right: "\<forall>j. l \<le> j \<and> j < ncols B \<longrightarrow>
        normalize_vec (residual A l (col A j)) = Inr (col B j)"
  shows "lin_indep B"
proof (rule lin_indep_block_operation [OF li lm shape,
      of "\<lambda>j k. dot (col A k) (col A j)" "\<lambda>j. vec_norm (residual A l (col A j))"])
  fix k r assume "k < l" "r < nrows A"
  then show "col B k ! r = col A k ! r" using left by simp
next
  fix j r assume j: "l \<le> j" "j < ncols A" and r: "r < nrows A"
  have q: "normalize_vec (residual A l (col A j)) = Inr (col B j)"
    using right j shape by simp
  have lj: "length (col A j) = nrows A"
    using j wf by (simp add: wf_col_length)
  have "col B j ! r = residual A l (col A j) ! r / vec_norm (residual A l (col A j))"
    using normalize_vec_Inr(3) [OF q, of r] r lj by (simp add: length_residual)
  also have "residual A l (col A j) ! r =
      col A j ! r - (\<Sum>k<l. dot (col A k) (col A j) * col A k ! r)"
    using nth_residual [OF wf lm lj r] by (simp add: mult.commute)
  finally show "col B j ! r =
      (col A j ! r - (\<Sum>k<l. dot (col A k) (col A j) * col A k ! r)) /
      vec_norm (residual A l (col A j))" .
next
  fix j assume j: "l \<le> j" "j < ncols A"
  have "normalize_vec (residual A l (col A j)) = Inr (col B j)"
    using right j shape by simp
  then show "vec_norm (residual A l (col A j)) \<noteq> 0"
    by (rule normalize_vec_Inr(2))
qed

lemma lin_indep_not_in_span_left:
  assumes "lin_indep A" and "l \<le> j" and "j < ncols A"
  shows "\<not> in_span_left A l (col A j)"
  using lin_indep_not_in_span [OF assms(1,3)] in_span_left_mono [OF _ assms(2)]
  by blast

subsection \<open>The composite routine\<close>

text \<open>The state after the call of \<open>partial_orthogonalisation\<close> inside
  \<open>JensWehner_orthogonalisation\<close>.\<close>

lemma JensWehner_after_partial:
  assumes wf: "wf_matrix A" and li: "lin_indep A" and L: "0 \<le> L" "L < cols A"
    and on: "orthonormal_upto A (nat L)"
  shows "\<exists>A1. partial_orthogonalisation A L = Inr A1 \<and> wf_matrix A1 \<and> lin_indep A1 \<and>
           nrows A1 = nrows A \<and> ncols A1 = ncols A \<and> leftCols A1 (nat L) = leftCols A (nat L) \<and>
           (\<forall>i<nat L. col A1 i = col A i) \<and>
           (\<forall>i j. i < nat L \<and> nat L \<le> j \<and> j < ncols A1 \<longrightarrow> dot (col A1 i) (col A1 j) = 0)"
proof (cases "L = 0")
  case True
  then have "partial_orthogonalisation A L = Inr A"
    using L by (simp add: partial_orthogonalisation_def assert_leftColsToSkip_ok)
  with True wf li show ?thesis by simp
next
  case False
  with L have L1: "1 \<le> L" by simp
  have lm: "nat L \<le> ncols A" using L by (simp add: cols_ncols)
  have span: "\<forall>j. nat L \<le> j \<and> j < ncols A \<longrightarrow> \<not> in_span_left A (nat L) (col A j)"
    using lin_indep_not_in_span_left [OF li] by blast
  obtain B where B: "partial_orthogonalisation A L = Inr B" "wf_matrix B"
      "nrows B = nrows A" "ncols B = ncols A" "leftCols B (nat L) = leftCols A (nat L)"
      "\<forall>i<nat L. col B i = col A i"
      "\<forall>j. nat L \<le> j \<and> j < ncols B \<longrightarrow>
         normalize_vec (residual A (nat L) (col A j)) = Inr (col B j) \<and>
         vec_norm (col B j) = 1 \<and> (\<forall>i<nat L. dot (col B i) (col B j) = 0)"
    using partial_orthogonalisation_post [OF wf L1 L(2) on span] by blast
  have "lin_indep B"
    using B(7) by (intro partial_orthogonalisation_lin_indep [OF wf li lm B(3,4,6)]) blast
  with B show ?thesis by blast
qed

lemma rightCols_simps:
  assumes "k \<le> ncols A"
  shows "nrows (rightCols A k) = nrows A" and "ncols (rightCols A k) = k"
    and "\<And>j. j < k \<Longrightarrow> col (rightCols A k) j = col A (ncols A - k + j)"
  using assms by (simp_all add: rightCols_def ncols_def col_def)

lemma wf_rightCols: "wf_matrix A \<Longrightarrow> wf_matrix (rightCols A k)"
  by (auto simp: wf_matrix_def rightCols_def list_all_iff dest: in_set_dropD)

lemma set_rightCols_simps:
  assumes "k \<le> ncols A" and "ncols Q = k"
  shows "nrows (set_rightCols A k Q) = nrows A" and "ncols (set_rightCols A k Q) = ncols A"
    and "leftCols (set_rightCols A k Q) (ncols A - k) = leftCols A (ncols A - k)"
    and "\<And>i. i < ncols A - k \<Longrightarrow> col (set_rightCols A k Q) i = col A i"
    and "\<And>j. ncols A - k \<le> j \<Longrightarrow> col (set_rightCols A k Q) j = col Q (j - (ncols A - k))"
  using assms by (simp_all add: set_rightCols_def ncols_def col_def leftCols_def nth_append)

lemma QR_factorD:
  assumes "QR_factor Q M"
  shows "wf_matrix Q" and "nrows Q = nrows M" and "ncols Q = nrows M"
    and "orthonormal_upto Q (ncols Q)"
proof -
  note c = assms [unfolded QR_factor_def]
  show "wf_matrix Q" using c by (elim conjE)
  show "nrows Q = nrows M" using c by (elim conjE)
  show "ncols Q = nrows M" using c by (elim conjE)
  show "orthonormal_upto Q (ncols Q)" using c by (elim conjE)
qed

lemma QR_factorE:
  assumes "QR_factor Q M"
  shows "\<exists>R. \<forall>j<ncols M. \<forall>r<nrows M.
      col M j ! r = (\<Sum>i<nrows M. (if i \<le> j then R i j else 0) * col Q i ! r)"
  using assms by (simp add: QR_factor_def)

text \<open>
  Claim C2. Let the columns of the real matrix \<open>A\<close> be linearly independent, let
  \<open>0 \<le> L < cols\<close> and let columns \<open>[0, L)\<close> be orthonormal. Take for the Householder
  factor of the right block, once \<open>partial_orthogonalisation\<close> has run, a factor \<open>Q\<close> of a
  QR decomposition of that block. Then \<open>JensWehner_orthogonalisation(A, L)\<close> returns a
  matrix of the same shape in which columns \<open>[0, L)\<close> are those of \<open>A\<close>, columns
  \<open>[L, cols)\<close> are orthonormal, and every column of \<open>[L, cols)\<close> is orthogonal to every
  column of \<open>[0, L)\<close>.
\<close>

theorem JensWehner_orthogonalisation_correct:
  assumes wf: "wf_matrix A" and li: "lin_indep A" and L: "0 \<le> L" "L < cols A"
    and on: "orthonormal_upto A (nat L)"
    and qr: "\<forall>A1. partial_orthogonalisation A L = Inr A1 \<longrightarrow>
               QR_factor (householderQ (rightCols A1 (nat (cols A - L))))
                 (rightCols A1 (nat (cols A - L)))"
  shows "\<exists>B. JensWehner_orthogonalisation householderQ A L = Inr B \<and>
           nrows B = nrows A \<and> ncols B = ncols A \<and>
           leftCols B (nat L) = leftCols A (nat L) \<and>
           (\<forall>i j. nat L \<le> i \<and> i < ncols B \<and> nat L \<le> j \<and> j < ncols B \<longrightarrow>
              dot (col B i) (col B j) = (if i = j then 1 else 0)) \<and>
           (\<forall>i j. i < nat L \<and> nat L \<le> j \<and> j < ncols B \<longrightarrow> dot (col B i) (col B j) = 0)"
proof -
  let ?l = "nat L"
  let ?k = "nat (cols A - L)"
  obtain A1 where A1: "partial_orthogonalisation A L = Inr A1" "wf_matrix A1" "lin_indep A1"
      "nrows A1 = nrows A" "ncols A1 = ncols A" "leftCols A1 ?l = leftCols A ?l"
      "\<forall>i<?l. col A1 i = col A i"
      "\<forall>i j. i < ?l \<and> ?l \<le> j \<and> j < ncols A1 \<longrightarrow> dot (col A1 i) (col A1 j) = 0"
    using JensWehner_after_partial [OF wf li L on] by blast
  have k: "?k \<le> ncols A1" "ncols A1 - ?k = ?l" "?l + ?k = ncols A1"
    using L A1(5) by (simp_all add: cols_ncols)
  let ?M = "rightCols A1 ?k"
  let ?Q = "householderQ ?M"
  have M: "nrows ?M = nrows A" "ncols ?M = ?k" "wf_matrix ?M" "lin_indep ?M"
    using k(1) A1(2,3,4) by (simp_all add: rightCols_simps wf_rightCols lin_indep_rightCols)
  have cM: "col ?M j = col A1 (?l + j)" if "j < ?k" for j
    using rightCols_simps(3) [OF k(1) that] k(2) by simp
  have QM: "QR_factor ?Q ?M"
    using qr A1(1) by simp
  have Q: "wf_matrix ?Q" "nrows ?Q = nrows ?M" "ncols ?Q = nrows ?M"
    "orthonormal_upto ?Q (ncols ?Q)"
    by (rule QR_factorD [OF QM])+
  obtain R where R: "\<forall>j<ncols ?M. \<forall>r<nrows ?M.
      col ?M j ! r = (\<Sum>i<nrows ?M. (if i \<le> j then R i j else 0) * col ?Q i ! r)"
    using QR_factorE [OF QM] ..
  have kn: "?k \<le> nrows A"
    using QR_factor_ncols_le [OF R M(4)] M(1,2) by simp
  define T where "T = QR_orthogonalisation householderQ ?M"
  have T: "T = \<lparr>nrows = nrows ?M, columns = take (min (nrows ?M) (ncols ?M)) (columns ?Q)\<rparr>"
    unfolding T_def using Q(1,2,3) by (rule QR_orthogonalisation_columns)
  have mn: "min (nrows ?M) (ncols ?M) = ?k"
    using kn M(1,2) by simp
  have lQ: "length (columns ?Q) = nrows A"
    using Q(3) M(1) by (simp add: ncols_def)
  have nT: "nrows T = nrows ?M" "ncols T = ?k"
    unfolding T mn using kn by (simp_all add: ncols_def lQ)
  have cT: "col T j = col ?Q j" if "j < ?k" for j
    unfolding T mn using that by (simp add: col_def)
  define B where "B = set_rightCols A1 ?k T"
  have JW: "JensWehner_orthogonalisation householderQ A L = Inr B"
    using L A1(1) nT M(2)
    by (simp add: JensWehner_orthogonalisation_def assert_leftColsToSkip_ok Let_def
        T_def [symmetric] B_def)
  have B: "nrows B = nrows A" "ncols B = ncols A" "leftCols B ?l = leftCols A ?l"
    unfolding B_def
    using set_rightCols_simps(1,2,3) [OF k(1) nT(2)] A1(4,5,6) k(2) by simp_all
  have Bl: "col B i = col A1 i" if "i < ?l" for i
    unfolding B_def
    using set_rightCols_simps(4) [OF k(1) nT(2), of i] that k(2) by simp
  have Br: "col B j = col ?Q (j - ?l)" if "?l \<le> j" "j < ncols A" for j
  proof -
    have jk: "j - ?l < ?k" using that k(3) A1(5) by linarith
    have "col B j = col T (j - ?l)"
      unfolding B_def
      using set_rightCols_simps(5) [OF k(1) nT(2), of j] that k(2) by simp
    then show ?thesis
      using cT [OF jk] by simp
  qed
  have right: "dot (col B i) (col B j) = (if i = j then 1 else 0)"
    if "?l \<le> i \<and> i < ncols B \<and> ?l \<le> j \<and> j < ncols B" for i j
  proof -
    from that B(2) have i: "?l \<le> i" "i < ncols A" and j: "?l \<le> j" "j < ncols A"
      by simp_all
    have "i - ?l < ncols ?Q" "j - ?l < ncols ?Q"
      using i j k(3) A1(5) kn Q(3) M(1) by linarith+
    from orthonormal_uptoD [OF Q(4) this] i j show ?thesis
      by (simp add: Br) linarith
  qed
  have left: "dot (col B i) (col B j) = 0" if "i < ?l \<and> ?l \<le> j \<and> j < ncols B" for i j
  proof -
    from that B(2) have i: "i < ?l" and j: "?l \<le> j" "j < ncols A"
      by simp_all
    let ?j = "j - ?l"
    have jk: "?j < ?k" using j k(3) A1(5) by linarith
    have span: "in_span_left ?M (Suc ?j) (col ?Q ?j)"
      using jk kn M(1,2) by (intro QR_factor_in_span [OF R M(4)]) simp_all
    have lp: "length (col A1 i) = nrows ?M"
      using i k(3) A1(2) M(1) A1(4) by (simp add: wf_col_length)
    have "\<forall>t<Suc ?j. dot (col A1 i) (col ?M t) = 0"
    proof (intro allI impI)
      fix t assume "t < Suc ?j"
      then have t: "t < ?k" using jk by simp
      then have "?l + t < ncols A1" using k(3) by linarith
      then show "dot (col A1 i) (col ?M t) = 0"
        using A1(8) i by (simp add: cM [OF t])
    qed
    from dot_in_span_zero [OF span lp this] show ?thesis
      using i j by (simp add: Bl Br)
  qed
  show ?thesis
  proof (rule exI [of _ B], intro conjI allI impI)
    show "JensWehner_orthogonalisation householderQ A L = Inr B" by (rule JW)
    show "nrows B = nrows A" "ncols B = ncols A" "leftCols B ?l = leftCols A ?l"
      by (rule B)+
  next
    fix i j assume "?l \<le> i \<and> i < ncols B \<and> ?l \<le> j \<and> j < ncols B"
    then show "dot (col B i) (col B j) = (if i = j then 1 else 0)" by (rule right)
  next
    fix i j assume "i < ?l \<and> ?l \<le> j \<and> j < ncols B"
    then show "dot (col B i) (col B j) = 0" by (rule left)
  qed
qed

lemma JensWehner_example_hypotheses:
  "wf_matrix \<lparr>nrows = 3, columns = [[1, 0, 0], [0, 1, 0], [0, 3, 4 :: real]]\<rparr>"
  "lin_indep \<lparr>nrows = 3, columns = [[1, 0, 0], [0, 1, 0], [0, 3, 4]]\<rparr>"
  "orthonormal_upto \<lparr>nrows = 3, columns = [[1, 0, 0], [0, 1, 0], [0, 3, 4]]\<rparr> (nat 1)"
    apply (simp add: wf_matrix_def)
   apply (simp add: lin_indep_def ncols_def col_def eval_nat_numeral less_Suc_eq all_conj_distrib)
  apply (simp add: orthonormal_upto_def col_def dot_def)
  done

lemma QR_factor_example:
  "QR_factor \<lparr>nrows = 3, columns = [[0, 1, 0], [0, 0, 1], [1, 0, 0]]\<rparr>
     (rightCols \<lparr>nrows = 3, columns = [[1, 0, 0], [0, 1, 0], [0, 3 / 5, 4 / 5]]\<rparr> 2)"
  unfolding QR_factor_def
proof (intro conjI)
  let ?Q = "\<lparr>nrows = 3, columns = [[0, 1, 0], [0, 0, 1], [1, 0, 0 :: real]]\<rparr>"
  let ?M = "rightCols \<lparr>nrows = 3, columns = [[1, 0, 0], [0, 1, 0], [0, 3 / 5, 4 / 5 :: real]]\<rparr> 2"
  show "wf_matrix ?Q" by (simp add: wf_matrix_def)
  show "nrows ?Q = nrows ?M" by (simp add: rightCols_def)
  show "ncols ?Q = nrows ?M" by (simp add: rightCols_def ncols_def)
  show "orthonormal_upto ?Q (ncols ?Q)"
    by (simp add: orthonormal_upto_def ncols_def col_def dot_def eval_nat_numeral less_Suc_eq
        all_conj_distrib)
  have "\<forall>j<ncols ?M. \<forall>r<nrows ?M. col ?M j ! r =
      (\<Sum>i<nrows ?M. (if i \<le> j then (if i = 0 then if j = 0 then 1 else 3 / 5 else 4 / 5) else 0) *
         col ?Q i ! r)"
    by (simp add: rightCols_def ncols_def col_def eval_nat_numeral less_Suc_eq all_conj_distrib)
  then show "\<exists>R. \<forall>j<ncols ?M. \<forall>r<nrows ?M. col ?M j ! r =
      (\<Sum>i<nrows ?M. (if i \<le> j then R i j else 0) * col ?Q i ! r)"
    by (rule exI [of _ "\<lambda>i j. if i = 0 then if j = 0 then 1 else 3 / 5 else 4 / 5"])
qed

lemma JensWehner_example_3:
  "JensWehner_orthogonalisation (\<lambda>M. \<lparr>nrows = 3, columns = [[0, 1, 0], [0, 0, 1], [1, 0, 0]]\<rparr>)
     \<lparr>nrows = 3, columns = [[1, 0, 0], [0, 1, 0], [0, 3, 4]]\<rparr> 1 =
     Inr \<lparr>nrows = 3, columns = [[1, 0, 0], [0, 1, 0], [0, 0, 1]]\<rparr>"
  unfolding JensWehner_orthogonalisation_def partial_not_orthonormal_example
  by (simp add: QR_orthogonalisation_def eval_primitives)

theorem JensWehner_orthogonalisation_correct_witness:
  "JensWehner_orthogonalisation (\<lambda>M. \<lparr>nrows = 3, columns = [[0, 1, 0], [0, 0, 1], [1, 0, 0]]\<rparr>)
     \<lparr>nrows = 3, columns = [[1, 0, 0], [0, 1, 0], [0, 3, 4]]\<rparr> 1 =
     Inr \<lparr>nrows = 3, columns = [[1, 0, 0], [0, 1, 0], [0, 0, 1]]\<rparr> \<and>
   (\<exists>B. JensWehner_orthogonalisation
           (\<lambda>M. \<lparr>nrows = 3, columns = [[0, 1, 0], [0, 0, 1], [1, 0, 0]]\<rparr>)
           \<lparr>nrows = 3, columns = [[1, 0, 0], [0, 1, 0], [0, 3, 4]]\<rparr> 1 = Inr B \<and>
        leftCols B (nat 1) =
          leftCols \<lparr>nrows = 3, columns = [[1, 0, 0], [0, 1, 0], [0, 3, 4]]\<rparr> (nat 1) \<and>
        dot (col B 1) (col B 2) = 0 \<and> dot (col B 2) (col B 2) = 1 \<and>
        dot (col B 0) (col B 2) = 0)"
proof -
  let ?A = "\<lparr>nrows = 3, columns = [[1, 0, 0], [0, 1, 0], [0, 3, 4 :: real]]\<rparr>"
  let ?hq = "\<lambda>M :: real matrix. \<lparr>nrows = 3, columns = [[0, 1, 0], [0, 0, 1], [1, 0, 0 :: real]]\<rparr>"
  have c: "nat (cols ?A - 1) = 2" "(1::int) < cols ?A"
    by (simp_all add: cols_def)
  have qr: "\<forall>A1. partial_orthogonalisation ?A 1 = Inr A1 \<longrightarrow>
      QR_factor (?hq (rightCols A1 (nat (cols ?A - 1)))) (rightCols A1 (nat (cols ?A - 1)))"
    unfolding partial_not_orthonormal_example c using QR_factor_example by simp
  obtain B where B: "JensWehner_orthogonalisation ?hq ?A 1 = Inr B" "ncols B = ncols ?A"
      "leftCols B (nat 1) = leftCols ?A (nat 1)"
      "\<forall>i j. nat 1 \<le> i \<and> i < ncols B \<and> nat 1 \<le> j \<and> j < ncols B \<longrightarrow>
         dot (col B i) (col B j) = (if i = j then 1 else 0)"
      "\<forall>i j. i < nat 1 \<and> nat 1 \<le> j \<and> j < ncols B \<longrightarrow> dot (col B i) (col B j) = 0"
    using JensWehner_orthogonalisation_correct [OF JensWehner_example_hypotheses(1,2) _ c(2)
        JensWehner_example_hypotheses(3) qr]
    by auto
  have n: "ncols B = 3" using B(2) by (simp add: ncols_def)
  have "dot (col B 1) (col B 2) = 0" "dot (col B 2) (col B 2) = 1"
    using B(4) [rule_format, of 1 2] B(4) [rule_format, of 2 2] n by simp_all
  moreover have "dot (col B 0) (col B 2) = 0"
    using B(5) [rule_format, of 0 2] n by simp
  ultimately show ?thesis
    using B(1,3) JensWehner_example_3 by blast
qed

section \<open>The columns to skip are left as they are\<close>

lemma frame_kept_refl: "frame_kept A k A"
  by (simp add: frame_kept_def)

lemma frame_kept_trans: "frame_kept A k B \<Longrightarrow> frame_kept B k C \<Longrightarrow> frame_kept A k C"
  by (simp add: frame_kept_def)

lemma frame_kept_set_col: "k \<le> j \<Longrightarrow> frame_kept A k (set_col A j v)"
  by (simp add: frame_kept_def leftCols_set_col ncols_set_col nrows_set_col)

lemma frame_kept_MGS_inner: "k' \<le> k \<Longrightarrow> frame_kept A k' (MGS_inner A k j)"
proof (induction A k j rule: MGS_inner.induct)
  case (1 A k j)
  show ?case
  proof (cases "j < k")
    case True
    let ?A = "set_col A k (vsub (col A k) (smult (dot (col A j) (col A k)) (col A j)))"
    have "frame_kept A k' ?A"
      using "1.prems" by (rule frame_kept_set_col)
    moreover have "frame_kept ?A k' (MGS_inner ?A k (j + 1))"
      using "1.IH" [OF True "1.prems"] .
    ultimately show ?thesis
      using True by (subst MGS_inner.simps) (simp add: frame_kept_trans)
  next
    case False
    then show ?thesis by (subst MGS_inner.simps) (simp add: frame_kept_refl)
  qed
qed

lemma frame_kept_GS_loop_total: "k \<le> j \<Longrightarrow> frame_kept A k (GS_loop_total z A j)"
proof (induction z A j rule: GS_loop_total.induct)
  case (1 z A j)
  show ?case
  proof (cases "j < ncols A")
    case True
    let ?A1 = "set_col A j (GS_step A j)"
    let ?A2 = "set_col ?A1 j (normalize_total z (col ?A1 j))"
    have "frame_kept A k ?A2"
      using "1.prems" by (blast intro: frame_kept_trans frame_kept_set_col)
    moreover have "frame_kept ?A2 k (GS_loop_total z ?A2 (j + 1))"
      using "1.IH" [OF True refl] "1.prems" by simp
    ultimately show ?thesis
      using True by (subst GS_loop_total.simps) (simp add: Let_def frame_kept_trans)
  next
    case False
    then show ?thesis by (subst GS_loop_total.simps) (simp add: frame_kept_refl)
  qed
qed

lemma frame_kept_MGS_loop_total: "k' \<le> k \<Longrightarrow> frame_kept A k' (MGS_loop_total z A k)"
proof (induction z A k rule: MGS_loop_total.induct)
  case (1 z A k)
  show ?case
  proof (cases "k < ncols A")
    case True
    let ?A1 = "MGS_inner A k 0"
    let ?A2 = "set_col ?A1 k (normalize_total z (col ?A1 k))"
    have "frame_kept A k' ?A2"
      using "1.prems" by (blast intro: frame_kept_trans frame_kept_set_col frame_kept_MGS_inner)
    moreover have "frame_kept ?A2 k' (MGS_loop_total z ?A2 (k + 1))"
      using "1.IH" [OF True refl] "1.prems" by simp
    ultimately show ?thesis
      using True by (subst MGS_loop_total.simps) (simp add: Let_def frame_kept_trans)
  next
    case False
    then show ?thesis by (subst MGS_loop_total.simps) (simp add: frame_kept_refl)
  qed
qed

lemma GS_total_frame:
  assumes "1 \<le> L" and "L < cols A"
  shows "\<exists>B. GS_orthogonalisation_total z A L = Inr B \<and> frame_kept A (nat L) B"
  using assms
  by (simp add: GS_orthogonalisation_total_def assert_leftColsToSkip_ok treatFirstCol_total_def
      frame_kept_GS_loop_total)

lemma MGS_total_frame:
  assumes "1 \<le> L" and "L < cols A"
  shows "\<exists>B. MGS_orthogonalisation_total z A L = Inr B \<and> frame_kept A (nat L) B"
  using assms
  by (simp add: MGS_orthogonalisation_total_def assert_leftColsToSkip_ok treatFirstCol_total_def
      frame_kept_MGS_loop_total)

lemma twice_total_frame:
  assumes "1 \<le> L" and "L < cols A"
  shows "\<exists>B. twice_is_enough_orthogonalisation_total z A L = Inr B \<and> frame_kept A (nat L) B"
proof -
  obtain B where B: "GS_orthogonalisation_total z A L = Inr B" "frame_kept A (nat L) B"
    using GS_total_frame [OF assms] by blast
  then have "L < cols B"
    using assms(2) by (simp add: frame_kept_def cols_ncols)
  then obtain C where C: "GS_orthogonalisation_total z B L = Inr C" "frame_kept B (nat L) C"
    using GS_total_frame [OF assms(1)] by blast
  from B C show ?thesis
    by (auto simp: twice_is_enough_orthogonalisation_total_def intro: frame_kept_trans)
qed

lemma partial_total_frame:
  assumes "1 \<le> L" and "L < cols A"
  shows "\<exists>B. partial_orthogonalisation_total z A L = Inr B \<and> frame_kept A (nat L) B"
proof -
  have n: "ncols A - nat (cols A - L) = nat L" "nat L \<le> length (columns A)"
    using assms by (simp_all add: cols_def ncols_def)
  show ?thesis
    using assms n
    by (simp add: partial_orthogonalisation_total_def assert_leftColsToSkip_ok Let_def
        frame_kept_def set_rightCols_def leftCols_def rightCols_def ncols_def mat_sub_def
        mat_mul_def cols_def)
qed

text \<open>In \<open>JensWehner_orthogonalisation\<close> the assignment to the view of the right block
  is the one exit; the call reaches it with the first columns as they were, and fails
  there exactly when the factor has other rows than the block or the block has more
  columns than rows.\<close>

lemma JensWehner_total_frame:
  assumes "1 \<le> L" and "L < cols A"
  shows "\<exists>A1. partial_orthogonalisation_total z A L = Inr A1 \<and> frame_kept A (nat L) A1 \<and>
     (if nrows (hq (rightCols A1 (nat (cols A - L)))) = nrows A \<and> nat (cols A - L) \<le> nrows A
      then \<exists>B. JensWehner_orthogonalisation_total z hq A L = Inr B \<and> frame_kept A (nat L) B
      else JensWehner_orthogonalisation_total z hq A L = Inl ViewShapeMismatch)"
proof -
  let ?k = "nat (cols A - L)"
  obtain A1 where A1: "partial_orthogonalisation_total z A L = Inr A1" "frame_kept A (nat L) A1"
    using partial_total_frame [OF assms] by blast
  have k: "?k \<le> ncols A1" "ncols A1 - ?k = nat L" "nat L + ?k = ncols A1"
    using assms A1(2) by (simp_all add: frame_kept_def cols_ncols)
  let ?M = "rightCols A1 ?k"
  let ?Q = "QR_orthogonalisation hq ?M"
  have M: "nrows ?M = nrows A" "ncols ?M = ?k"
    using k(1) A1(2) by (simp_all add: rightCols_def ncols_def frame_kept_def)
  have Q: "nrows ?Q = nrows (hq ?M)" "ncols ?Q = min (nrows A) ?k"
    using ncols_QR_orthogonalisation [of hq ?M] M
    by (simp_all add: QR_orthogonalisation_def Let_def mat_mul_def)
  have fits: "nrows ?Q = nrows ?M \<and> ncols ?Q = ncols ?M \<longleftrightarrow>
      nrows (hq ?M) = nrows A \<and> ?k \<le> nrows A"
    using Q M by (auto simp: min_def split: if_splits)
  have JW: "JensWehner_orthogonalisation_total z hq A L =
      (if nrows ?Q = nrows ?M \<and> ncols ?Q = ncols ?M
       then Inr (set_rightCols A1 ?k ?Q) else Inl ViewShapeMismatch)"
    using assms A1(1)
    by (simp add: JensWehner_orthogonalisation_total_def assert_leftColsToSkip_ok Let_def)
  have "frame_kept A1 (nat L) (set_rightCols A1 ?k ?Q)" if "ncols ?Q = ncols ?M"
    using that k M(2)
    by (simp add: frame_kept_def set_rightCols_def leftCols_def ncols_def)
  then have "frame_kept A (nat L) (set_rightCols A1 ?k ?Q)" if "ncols ?Q = ncols ?M"
    using that A1(2) by (blast intro: frame_kept_trans)
  with A1 JW fits show ?thesis
    by auto
qed

subsection \<open>Where no norm is zero, both forms of a routine return the same matrix\<close>

lemma normalize_total_agrees: "normalize_vec v = Inr q \<Longrightarrow> normalize_total z v = q"
  by (auto simp: normalize_vec_def normalize_total_def split: if_splits)

lemma colwise_normalize_agrees:
  "colwise_normalize cs = Inr vs \<Longrightarrow> map (normalize_total z) cs = vs"
  by (induction cs arbitrary: vs) (auto split: sum.splits dest: normalize_total_agrees)

lemma treatFirstCol_total_agrees:
  "treatFirstCol A L = Inr (B, L') \<Longrightarrow> treatFirstCol_total z A L = (B, L')"
  by (auto simp: treatFirstCol_def treatFirstCol_total_def normalize_total_agrees
      split: if_splits sum.splits)

lemma GS_loop_total_agrees: "GS_loop A j = Inr B \<Longrightarrow> GS_loop_total z A j = B"
proof (induction A j rule: GS_loop.induct)
  case (1 A j)
  show ?case
  proof (cases "j < ncols A")
    case True
    let ?A1 = "set_col A j (GS_step A j)"
    from "1.prems" True obtain q where q: "normalize_vec (col ?A1 j) = Inr q"
      and B: "GS_loop (set_col ?A1 j q) (j + 1) = Inr B"
      by (subst (asm) GS_loop.simps) (auto simp: Let_def split: sum.splits)
    have "GS_loop_total z (set_col ?A1 j q) (j + 1) = B"
      using "1.IH" [OF True refl q B] .
    then show ?thesis
      using True normalize_total_agrees [OF q, of z]
      by (subst GS_loop_total.simps) (simp add: Let_def)
  next
    case False
    then show ?thesis
      using "1.prems"
      by (subst GS_loop_total.simps, subst (asm) GS_loop.simps) simp
  qed
qed

lemma MGS_loop_total_agrees: "MGS_loop A k = Inr B \<Longrightarrow> MGS_loop_total z A k = B"
proof (induction A k rule: MGS_loop.induct)
  case (1 A k)
  show ?case
  proof (cases "k < ncols A")
    case True
    let ?A1 = "MGS_inner A k 0"
    from "1.prems" True obtain q where q: "normalize_vec (col ?A1 k) = Inr q"
      and B: "MGS_loop (set_col ?A1 k q) (k + 1) = Inr B"
      by (subst (asm) MGS_loop.simps) (auto simp: Let_def split: sum.splits)
    have "MGS_loop_total z (set_col ?A1 k q) (k + 1) = B"
      using "1.IH" [OF True refl q B] .
    then show ?thesis
      using True normalize_total_agrees [OF q, of z]
      by (subst MGS_loop_total.simps) (simp add: Let_def)
  next
    case False
    then show ?thesis
      using "1.prems"
      by (subst MGS_loop_total.simps, subst (asm) MGS_loop.simps) simp
  qed
qed

lemma GS_orthogonalisation_total_agrees:
  "GS_orthogonalisation A L = Inr B \<Longrightarrow> GS_orthogonalisation_total z A L = Inr B"
  by (auto simp: GS_orthogonalisation_def GS_orthogonalisation_total_def
      split: sum.splits prod.splits
      dest!: treatFirstCol_total_agrees [of _ _ _ _ z] GS_loop_total_agrees [of _ _ _ z])

lemma MGS_orthogonalisation_total_agrees:
  "MGS_orthogonalisation A L = Inr B \<Longrightarrow> MGS_orthogonalisation_total z A L = Inr B"
  by (auto simp: MGS_orthogonalisation_def MGS_orthogonalisation_total_def
      split: sum.splits prod.splits
      dest!: treatFirstCol_total_agrees [of _ _ _ _ z] MGS_loop_total_agrees [of _ _ _ z])

lemma twice_is_enough_orthogonalisation_total_agrees:
  "twice_is_enough_orthogonalisation A L = Inr B \<Longrightarrow>
   twice_is_enough_orthogonalisation_total z A L = Inr B"
  by (auto simp: twice_is_enough_orthogonalisation_def twice_is_enough_orthogonalisation_total_def
      split: sum.splits dest!: GS_orthogonalisation_total_agrees [of _ _ _ z])

lemma partial_orthogonalisation_total_agrees:
  "partial_orthogonalisation A L = Inr B \<Longrightarrow> partial_orthogonalisation_total z A L = Inr B"
  by (auto simp: partial_orthogonalisation_def partial_orthogonalisation_total_def Let_def
      split: sum.splits if_splits dest!: colwise_normalize_agrees [of _ _ z])

lemma JensWehner_orthogonalisation_total_agrees:
  "JensWehner_orthogonalisation hq A L = Inr B \<Longrightarrow>
   JensWehner_orthogonalisation_total z hq A L = Inr B"
  by (auto simp: JensWehner_orthogonalisation_def JensWehner_orthogonalisation_total_def Let_def
      split: sum.splits if_splits dest!: partial_orthogonalisation_total_agrees [of _ _ _ z])

text \<open>
  Claim C4. For every matrix \<open>A\<close> and every \<open>L\<close> with \<open>1 \<le> L < cols\<close>, each of the five
  routines leaves columns \<open>[0, L)\<close> equal to their input values, and the shape of the
  matrix as it was, whatever normalisation leaves in a vector of norm zero:
  \<open>GS_orthogonalisation\<close>, \<open>MGS_orthogonalisation\<close>, \<open>twice_is_enough_orthogonalisation\<close>
  and \<open>partial_orthogonalisation\<close> return such a matrix; \<open>JensWehner_orthogonalisation\<close>
  has the first columns unchanged when it comes to the assignment to the view of the
  right block, and either fails there (the value has not the shape of the view) or
  returns such a matrix.
\<close>

theorem prefix_columns_unchanged:
  assumes "1 \<le> L" and "L < cols A"
  shows "(\<exists>B. GS_orthogonalisation_total at_zero A L = Inr B \<and> frame_kept A (nat L) B) \<and>
         (\<exists>B. MGS_orthogonalisation_total at_zero A L = Inr B \<and> frame_kept A (nat L) B) \<and>
         (\<exists>B. twice_is_enough_orthogonalisation_total at_zero A L = Inr B \<and>
              frame_kept A (nat L) B) \<and>
         (\<exists>B. partial_orthogonalisation_total at_zero A L = Inr B \<and> frame_kept A (nat L) B) \<and>
         (\<exists>A1. partial_orthogonalisation_total at_zero A L = Inr A1 \<and> frame_kept A (nat L) A1 \<and>
            (if nrows (householderQ (rightCols A1 (nat (cols A - L)))) = nrows A \<and>
                nat (cols A - L) \<le> nrows A
             then \<exists>B. JensWehner_orthogonalisation_total at_zero householderQ A L = Inr B \<and>
                    frame_kept A (nat L) B
             else JensWehner_orthogonalisation_total at_zero householderQ A L =
                    Inl ViewShapeMismatch))"
  using GS_total_frame [OF assms] MGS_total_frame [OF assms] twice_total_frame [OF assms]
    partial_total_frame [OF assms] JensWehner_total_frame [OF assms]
  by blast

lemma GS_total_example:
  "GS_orthogonalisation_total (\<lambda>v. v) \<lparr>nrows = 2, columns = [[1, 0], [2, 0], [3, 1]]\<rparr> 1 =
     Inr \<lparr>nrows = 2, columns = [[1, 0], [0, 0], [0, 1]]\<rparr>"
  by (simp add: GS_orthogonalisation_total_def treatFirstCol_total_def GS_loop_total.simps
      normalize_total_def eval_primitives)

lemma GS_zero_norm_example:
  "GS_orthogonalisation \<lparr>nrows = 2, columns = [[1, 0], [2, 0], [3, 1]]\<rparr> 1 = Inl ZeroNorm"
  by (simp add: GS_orthogonalisation_def GS_loop.simps eval_primitives)

lemma JensWehner_total_example:
  "JensWehner_orthogonalisation_total (\<lambda>v. v)
     (\<lambda>M. \<lparr>nrows = 2, columns = [[0, 1], [1, 0]]\<rparr>)
     \<lparr>nrows = 2, columns = [[1, 0], [2, 0], [3, 1]]\<rparr> 1 =
     Inr \<lparr>nrows = 2, columns = [[1, 0], [0, 1], [1, 0]]\<rparr>"
  by (simp add: JensWehner_orthogonalisation_total_def partial_orthogonalisation_total_def
      QR_orthogonalisation_def normalize_total_def eval_primitives)

theorem prefix_columns_unchanged_witness:
  "GS_orthogonalisation \<lparr>nrows = 2, columns = [[1, 0], [2, 0], [3, 1]]\<rparr> 1 = Inl ZeroNorm \<and>
   GS_orthogonalisation_total (\<lambda>v. v) \<lparr>nrows = 2, columns = [[1, 0], [2, 0], [3, 1]]\<rparr> 1 =
     Inr \<lparr>nrows = 2, columns = [[1, 0], [0, 0], [0, 1]]\<rparr> \<and>
   frame_kept \<lparr>nrows = 2, columns = [[1, 0], [2, 0], [3, 1]]\<rparr> (nat 1)
     \<lparr>nrows = 2, columns = [[1, 0], [0, 0], [0, 1]]\<rparr> \<and>
   JensWehner_orthogonalisation_total (\<lambda>v. v)
     (\<lambda>M. \<lparr>nrows = 2, columns = [[0, 1], [1, 0]]\<rparr>)
     \<lparr>nrows = 2, columns = [[1, 0], [2, 0], [3, 1]]\<rparr> 1 =
     Inr \<lparr>nrows = 2, columns = [[1, 0], [0, 1], [1, 0]]\<rparr> \<and>
   frame_kept \<lparr>nrows = 2, columns = [[1, 0], [2, 0], [3, 1]]\<rparr> (nat 1)
     \<lparr>nrows = 2, columns = [[1, 0], [0, 1], [1, 0]]\<rparr>"
proof -
  let ?A = "\<lparr>nrows = 2, columns = [[1, 0], [2, 0], [3, 1 :: real]]\<rparr>"
  let ?hq = "\<lambda>M :: real matrix. \<lparr>nrows = 2, columns = [[0, 1], [1, 0 :: real]]\<rparr>"
  have L: "(1::int) \<le> 1" "1 < cols ?A"
    by (simp_all add: cols_def)
  note t = prefix_columns_unchanged [OF L, of "\<lambda>v. v" ?hq]
  have g: "frame_kept ?A (nat 1) \<lparr>nrows = 2, columns = [[1, 0], [0, 0], [0, 1]]\<rparr>"
    using t [THEN conjunct1] GS_total_example by auto
  have "nrows (?hq M) = nrows ?A \<and> nat (cols ?A - 1) \<le> nrows ?A" for M
    by (simp add: cols_def)
  then have "\<exists>B. JensWehner_orthogonalisation_total (\<lambda>v. v) ?hq ?A 1 = Inr B \<and>
      frame_kept ?A (nat 1) B"
    using t by auto
  then have j: "frame_kept ?A (nat 1) \<lparr>nrows = 2, columns = [[1, 0], [0, 1], [1, 0]]\<rparr>"
    using JensWehner_total_example by auto
  from g j GS_zero_norm_example GS_total_example JensWehner_total_example show ?thesis
    by blast
qed

end
